theory Spec2Isabelle
  imports Main "HOL-Library.Word"
begin

section \<open>The reward postback endpoint of the kkoin bot server\<close>

text \<open>
  The development embeds the handler of \<^verbatim>\<open>GET /monetag-reward\<close> (the Express
  route of the postback server) and the parts of its surroundings that the handler
  computes with:
  \<^item> the JavaScript built-ins it calls (\<^verbatim>\<open>parseInt\<close>, \<^verbatim>\<open>isNaN\<close>, \<^verbatim>\<open>!\<close>,
    \<^verbatim>\<open>!==\<close>, \<^verbatim>\<open><=\<close>), following ECMAScript;
  \<^item> the Firestore client calls it makes (\<^verbatim>\<open>collection\<close>, \<^verbatim>\<open>doc\<close>,
    \<^verbatim>\<open>runTransaction\<close>, \<^verbatim>\<open>transaction.get/set/update\<close>,
    \<^verbatim>\<open>FieldValue.increment\<close>), as a document store with atomic transactions,
    64-bit integer and double number values, and resource paths that the client
    validates and splits at slashes.

  What lies outside the handler is an input of the model: the configuration read at
  start-up, the clock, and whether the store commits or fails the transaction.
  Console output is not modelled. A query parameter is a string or absent (repeated
  keys, which Express turns into arrays, are left out), and a \<open>char\<close> stands for a
  code unit below 256. The \<open>points\<close> field of a stored profile holds a number whose
  value is an integer.
\<close>

subsection \<open>JavaScript numbers\<close>

text \<open>
  \<^verbatim>\<open>parseInt\<close> returns a Number: NaN, an infinity, or a double whose value is an
  integer. \<open>Fin i\<close> is the double of integer value \<open>i\<close>; negative zero is identified
  with \<open>Fin 0\<close> (the handler only compares it with zero).
\<close>

datatype jsnum = NaN | Fin int | PosInf | NegInf

fun isNaN :: "jsnum \<Rightarrow> bool" where
  "isNaN NaN = True"
| "isNaN _ = False"

text \<open>The comparison \<^verbatim>\<open>a <= b\<close> on Numbers: false as soon as one side is NaN.\<close>

fun js_le :: "jsnum \<Rightarrow> jsnum \<Rightarrow> bool" where
  "js_le NaN _ = False"
| "js_le _ NaN = False"
| "js_le (Fin a) (Fin b) = (a \<le> b)"
| "js_le NegInf _ = True"
| "js_le _ PosInf = True"
| "js_le PosInf _ = False"
| "js_le _ NegInf = False"

text \<open>
  The Number value of a mathematical integer: the nearest double, ties to the even
  significand of 53 bits, and an infinity from \<open>2 ^ 1024\<close> on.
\<close>

fun bit_length :: "nat \<Rightarrow> nat" where
  "bit_length n = (if n = 0 then 0 else Suc (bit_length (n div 2)))"

declare bit_length.simps [simp del]

definition round53 :: "nat \<Rightarrow> nat" where
  "round53 n =
     (let k = bit_length n in
      if k \<le> 53 then n
      else
        let e = k - 53;
            q = n div 2 ^ e;
            r = n mod 2 ^ e;
            half = 2 ^ (e - 1)
        in (if half < r \<or> (r = half \<and> odd q) then q + 1 else q) * 2 ^ e)"

definition to_double :: "int \<Rightarrow> jsnum" where
  "to_double i =
     (let m = round53 (nat \<bar>i\<bar>) in
      if 2 ^ 1024 \<le> m then (if i < 0 then NegInf else PosInf)
      else Fin (if i < 0 then - int m else int m))"

subsection \<open>\<^verbatim>\<open>parseInt\<close> with no radix argument\<close>

definition StrWhiteSpaceChar :: "char \<Rightarrow> bool" where
  "StrWhiteSpaceChar c \<longleftrightarrow>
     c \<in> set [CHR 0x09, CHR 0x0A, CHR 0x0B, CHR 0x0C, CHR 0x0D, CHR 0x20, CHR 0xA0]"

text \<open>The value of a digit in radix up to 36; 36 for a character that is no digit.\<close>

definition digit_value :: "char \<Rightarrow> nat" where
  "digit_value c =
     (let n = (of_char c :: nat) in
      if 48 \<le> n \<and> n \<le> 57 then n - 48
      else if 97 \<le> n \<and> n \<le> 122 then n - 87
      else if 65 \<le> n \<and> n \<le> 90 then n - 55
      else 36)"

definition radix_digit :: "nat \<Rightarrow> char \<Rightarrow> bool" where
  "radix_digit R c \<longleftrightarrow> digit_value c < R"

definition digits_value :: "nat \<Rightarrow> string \<Rightarrow> nat" where
  "digits_value R Z = foldl (\<lambda>acc c. acc * R + digit_value c) 0 Z"

text \<open>
  The steps of ECMAScript's \<^verbatim>\<open>parseInt(string)\<close>: trim leading white space, read a
  sign, strip a \<^verbatim>\<open>0x\<close>/\<^verbatim>\<open>0X\<close> prefix (radix 16, otherwise 10), keep the longest
  prefix of digits of the radix; NaN when that prefix is empty, otherwise the Number
  value of the signed integer it denotes. Whatever follows the digits is ignored.
\<close>

definition parseInt :: "string \<Rightarrow> jsnum" where
  "parseInt inputString =
     (let S = dropWhile StrWhiteSpaceChar inputString;
          sign = (if S \<noteq> [] \<and> hd S = CHR ''-'' then - 1 else 1 :: int);
          S = (if S \<noteq> [] \<and> (hd S = CHR ''+'' \<or> hd S = CHR ''-'') then tl S else S);
          stripPrefix = (take 2 S = ''0x'' \<or> take 2 S = ''0X'');
          R = (if stripPrefix then 16 else 10);
          S = (if stripPrefix then drop 2 S else S);
          Z = takeWhile (radix_digit R) S
      in if Z = [] then NaN else to_double (sign * int (digits_value R Z)))"

text \<open>\<^verbatim>\<open>ToString\<close> of a query parameter: an absent one is \<^verbatim>\<open>undefined\<close>.\<close>

definition ToString :: "string option \<Rightarrow> string" where
  "ToString v = (case v of None \<Rightarrow> ''undefined'' | Some s \<Rightarrow> s)"

text \<open>\<^verbatim>\<open>!v\<close> on a query parameter: true for \<^verbatim>\<open>undefined\<close> and for the empty string.\<close>

definition js_not :: "string option \<Rightarrow> bool" where
  "js_not v = (case v of None \<Rightarrow> True | Some s \<Rightarrow> s = [])"

subsection \<open>Numbers in the store\<close>

text \<open>
  A double with an integer value, NaN or an infinity: a Number \<open>v\<close> such that \<open>Fin i\<close>
  is only used for an \<open>i\<close> that a double represents.
\<close>

definition is_double :: "jsnum \<Rightarrow> bool" where
  "is_double v = (case v of Fin i \<Rightarrow> to_double i = Fin i | _ \<Rightarrow> True)"

typedef double = "{v. is_double v}"
  by (rule exI [of _ NaN]) (simp add: is_double_def)

text \<open>The double of a Number (the Number itself, when it is a double).\<close>

definition double_of :: "jsnum \<Rightarrow> double" where
  "double_of v = Abs_double (case v of Fin i \<Rightarrow> to_double i | _ \<Rightarrow> v)"

text \<open>IEEE-754 addition on these values: the exact sum, rounded.\<close>

fun double_add :: "jsnum \<Rightarrow> jsnum \<Rightarrow> jsnum" where
  "double_add NaN _ = NaN"
| "double_add _ NaN = NaN"
| "double_add (Fin a) (Fin b) = to_double (a + b)"
| "double_add PosInf NegInf = NaN"
| "double_add NegInf PosInf = NaN"
| "double_add PosInf _ = PosInf"
| "double_add _ PosInf = PosInf"
| "double_add NegInf _ = NegInf"
| "double_add _ NegInf = NegInf"

text \<open>
  A number value of the store is a 64-bit signed integer or a double. \<open>fs_value\<close> is
  the number it stands for.
\<close>

datatype fsnum = IntegerValue "64 word" | DoubleValue double

definition fs_value :: "fsnum \<Rightarrow> jsnum" where
  "fs_value x = (case x of IntegerValue i \<Rightarrow> Fin (sint i) | DoubleValue d \<Rightarrow> Rep_double d)"

text \<open>
  The client sends a Number as an integer value when \<^verbatim>\<open>Number.isSafeInteger\<close> holds
  of it (an integer of magnitude at most \<open>2 ^ 53 - 1\<close>) and as a double value otherwise.
  (It sends negative zero as a double too; the handler never writes one, since it
  rejects a reward that is not above zero.)
\<close>

definition encodeValue :: "jsnum \<Rightarrow> fsnum" where
  "encodeValue v =
     (case v of
        Fin i \<Rightarrow>
          if - (2 ^ 53 - 1) \<le> i \<and> i \<le> 2 ^ 53 - 1 then IntegerValue (word_of_int i)
          else DoubleValue (double_of v)
      | _ \<Rightarrow> DoubleValue (double_of v))"

text \<open>
  \<^verbatim>\<open>FieldValue.increment(n)\<close>, applied by the store to the current number of the
  field: two integers are added as 64-bit integers and the sum is capped at the largest
  and smallest 64-bit integer; as soon as one of the two is a double, both are taken as
  doubles and added as doubles.
\<close>

definition double_of_int64 :: "64 word \<Rightarrow> double" where
  "double_of_int64 i = double_of (to_double (sint i))"

fun increment :: "fsnum \<Rightarrow> fsnum \<Rightarrow> fsnum" where
  "increment (IntegerValue a) (IntegerValue b) =
     IntegerValue (word_of_int (max (- (2 ^ 63)) (min (2 ^ 63 - 1) (sint a + sint b))))"
| "increment (IntegerValue a) (DoubleValue y) =
     DoubleValue (double_of (double_add (Rep_double (double_of_int64 a)) (Rep_double y)))"
| "increment (DoubleValue x) (IntegerValue b) =
     DoubleValue (double_of (double_add (Rep_double x) (Rep_double (double_of_int64 b))))"
| "increment (DoubleValue x) (DoubleValue y) =
     DoubleValue (double_of (double_add (Rep_double x) (Rep_double y)))"

declare increment.simps [simp del]

subsection \<open>Resource paths\<close>

text \<open>
  A reference is the list of the collection and document names on its path. The
  client refuses a path argument that is empty or contains \<^verbatim>\<open>//\<close>, splits it at
  the slashes, drops the empty pieces (so a leading or trailing slash is allowed), and
  throws when the resulting path has the wrong parity: a document has an even number
  of segments, a collection an odd number. A thrown error is represented by the last
  sentence of its message.
\<close>

type_synonym doc_ref = "string list"

fun has_double_slash :: "string \<Rightarrow> bool" where
  "has_double_slash (a # b # cs) \<longleftrightarrow>
     (a = CHR ''/'' \<and> b = CHR ''/'') \<or> has_double_slash (b # cs)"
| "has_double_slash _ \<longleftrightarrow> False"

text \<open>\<^verbatim>\<open>s.split('/')\<close>\<close>

fun split_slash :: "string \<Rightarrow> string list" where
  "split_slash [] = [[]]"
| "split_slash (c # cs) =
     (if c = CHR ''/'' then [] # split_slash cs
      else (case split_slash cs of
              [] \<Rightarrow> [[c]]
            | s # ss \<Rightarrow> (c # s) # ss))"

definition validateResourcePath :: "string \<Rightarrow> string option" where
  "validateResourcePath resourcePath =
     (if resourcePath = [] then Some ''Path must be a non-empty string.''
      else if has_double_slash resourcePath then Some ''Paths must not contain //.''
      else None)"

definition append_path :: "string list \<Rightarrow> string \<Rightarrow> string list" where
  "append_path segments relativePath =
     segments @ filter (\<lambda>segment. segment \<noteq> []) (split_slash relativePath)"

definition isDocument :: "string list \<Rightarrow> bool" where
  "isDocument segments \<longleftrightarrow> segments \<noteq> [] \<and> even (length segments)"

definition isCollection :: "string list \<Rightarrow> bool" where
  "isCollection segments \<longleftrightarrow> odd (length segments)"

definition collection :: "string list \<Rightarrow> string \<Rightarrow> string + string list" where
  "collection parent collectionPath =
     (case validateResourcePath collectionPath of
        Some err \<Rightarrow> Inl err
      | None \<Rightarrow>
          let path = append_path parent collectionPath in
          if \<not> isCollection path then Inl ''Your path does not contain an odd number of components.''
          else Inr path)"

definition doc :: "string list \<Rightarrow> string \<Rightarrow> string + doc_ref" where
  "doc parent documentPath =
     (case validateResourcePath documentPath of
        Some err \<Rightarrow> Inl err
      | None \<Rightarrow>
          let path = append_path parent documentPath in
          if \<not> isDocument path then Inl ''Your path does not contain an even number of components.''
          else Inr path)"

text \<open>A call on the result of the call before it, unless that one threw.\<close>

definition on_ref :: "string + string list \<Rightarrow> (string list \<Rightarrow> string + string list) \<Rightarrow> string + string list" where
  "on_ref r f = (case r of Inl err \<Rightarrow> Inl err | Inr path \<Rightarrow> f path)"

subsection \<open>The Firestore document store\<close>

text \<open>A profile document has the fields the handler writes.\<close>

record profile =
  userId :: string
  points :: fsnum
  referrals :: int
  claimedTasks :: "string list"
  lastAdWatchDate :: string
  adsWatchedToday :: int
  processingWithdrawal :: bool

type_synonym firestore = "doc_ref \<rightharpoonup> profile"

text \<open>
  A transaction reads from the store as it was when the transaction began and
  buffers its writes; they are applied together when it commits.
\<close>

datatype write_op =
    TxSet doc_ref profile
  | TxUpdatePoints doc_ref jsnum

record transaction =
  snapshot :: firestore
  writes :: "write_op list"

definition tx_get :: "transaction \<Rightarrow> doc_ref \<Rightarrow> profile option" where
  "tx_get t ref = snapshot t ref"

definition tx_set :: "transaction \<Rightarrow> doc_ref \<Rightarrow> profile \<Rightarrow> transaction" where
  "tx_set t ref d = t\<lparr>writes := writes t @ [TxSet ref d]\<rparr>"

text \<open>\<^verbatim>\<open>transaction.update(ref, {points: FieldValue.increment(n)})\<close>.\<close>

definition tx_update_points :: "transaction \<Rightarrow> doc_ref \<Rightarrow> jsnum \<Rightarrow> transaction" where
  "tx_update_points t ref n = t\<lparr>writes := writes t @ [TxUpdatePoints ref n]\<rparr>"

text \<open>
  \<^verbatim>\<open>set\<close> replaces the document; \<^verbatim>\<open>update\<close> changes the named field of a document
  that exists and fails on one that does not.
\<close>

fun apply_write :: "write_op \<Rightarrow> firestore \<Rightarrow> firestore option" where
  "apply_write (TxSet ref d) db = Some (db(ref \<mapsto> d))"
| "apply_write (TxUpdatePoints ref n) db =
     (case db ref of
        None \<Rightarrow> None
      | Some d \<Rightarrow> Some (db(ref \<mapsto> d\<lparr>points := increment (points d) (encodeValue n)\<rparr>)))"

fun commit :: "write_op list \<Rightarrow> firestore \<Rightarrow> firestore option" where
  "commit [] db = Some db"
| "commit (w # ws) db =
     (case apply_write w db of None \<Rightarrow> None | Some db' \<Rightarrow> commit ws db')"

text \<open>
  Whether the store carries the transaction through is decided outside the handler
  (contention, connectivity): \<open>Fails e\<close> is the store rejecting the promise with \<open>e\<close>.
  A failed transaction leaves the store as it was.
\<close>

datatype tx_outcome = Commits | Fails string

definition runTransaction ::
  "tx_outcome \<Rightarrow> firestore \<Rightarrow> (transaction \<Rightarrow> transaction) \<Rightarrow> string + firestore" where
  "runTransaction outcome db updateFunction =
     (case outcome of
        Fails e \<Rightarrow> Inl e
      | Commits \<Rightarrow>
          (case commit (writes (updateFunction \<lparr>snapshot = db, writes = []\<rparr>)) db of
             None \<Rightarrow> Inl ''NOT_FOUND''
           | Some db' \<Rightarrow> Inr db'))"

subsection \<open>The handler\<close>

record config =
  REWARD_ENDPOINT_SECRET :: string
  APP_ID :: string

text \<open>
  The inputs the handler takes from its environment: the text of
  \<^verbatim>\<open>new Date().toDateString()\<close> and the fate of the transaction.
\<close>

record env =
  toDateString :: string
  transaction_outcome :: tx_outcome

record request =
  query :: "string \<rightharpoonup> string"

record response =
  status :: nat
  body :: string

text \<open>
  \<^verbatim>\<open>db.collection('artifacts').doc(APP_ID).collection('users').doc(user_id)
     .collection('data').doc('profile')\<close>
  Each of the six calls validates its argument and can throw.
\<close>

definition userDocRef :: "config \<Rightarrow> string \<Rightarrow> string + doc_ref" where
  "userDocRef cfg user_id =
     on_ref (on_ref (on_ref (on_ref (on_ref
       (collection [] ''artifacts'')
       (\<lambda>r. doc r (APP_ID cfg)))
       (\<lambda>r. collection r ''users''))
       (\<lambda>r. doc r user_id))
       (\<lambda>r. collection r ''data''))
       (\<lambda>r. doc r ''profile'')"

text \<open>
  The function passed to \<^verbatim>\<open>db.runTransaction\<close>. The Number \<^verbatim>\<open>rewardPoints\<close>
  in the data of \<^verbatim>\<open>set\<close> is stored as the client encodes it.
\<close>

definition reward_update ::
  "doc_ref \<Rightarrow> string \<Rightarrow> jsnum \<Rightarrow> string \<Rightarrow> transaction \<Rightarrow> transaction" where
  "reward_update ref user_id rewardPoints today t =
     (case tx_get t ref of
        None \<Rightarrow>
          tx_set t ref
            \<lparr>userId = user_id,
             points = encodeValue rewardPoints,
             referrals = 0,
             claimedTasks = [],
             lastAdWatchDate = today,
             adsWatchedToday = 1,
             processingWithdrawal = False\<rparr>
      | Some userDoc \<Rightarrow> tx_update_points t ref rewardPoints)"

text \<open>
  The handler returns what it sends and the store it leaves. The reference is built
  before the \<^verbatim>\<open>try\<close> block: when one of its calls throws, the handler's promise is
  rejected with that error (\<open>Inl\<close>), the handler sends no response and the store is
  not touched.
\<close>

definition monetag_reward ::
  "config \<Rightarrow> env \<Rightarrow> request \<Rightarrow> firestore \<Rightarrow> (string + response) \<times> firestore" where
  "monetag_reward cfg ev req db =
     (let user_id = query req ''user_id'';
          secret = query req ''secret'';
          points = query req ''points'';
          rewardPoints = parseInt (ToString points)
      in
        if secret \<noteq> Some (REWARD_ENDPOINT_SECRET cfg) then
          (Inr \<lparr>status = 403, body = ''Invalid secret.''\<rparr>, db)
        else if js_not user_id \<or> isNaN rewardPoints \<or> js_le rewardPoints (Fin 0) then
          (Inr \<lparr>status = 400, body = ''Invalid parameters.''\<rparr>, db)
        else
          (case user_id of
             None \<Rightarrow> (Inr \<lparr>status = 400, body = ''Invalid parameters.''\<rparr>, db)
           | Some uid \<Rightarrow>
              (case userDocRef cfg uid of
                 Inl thrown \<Rightarrow> (Inl thrown, db)
               | Inr ref \<Rightarrow>
                  (case runTransaction (transaction_outcome ev) db
                          (reward_update ref uid rewardPoints (toDateString ev)) of
                     Inr db' \<Rightarrow> (Inr \<lparr>status = 200, body = ''Reward processed.''\<rparr>, db')
                   | Inl error \<Rightarrow>
                       (Inr \<lparr>status = 500, body = ''Server Error during reward transaction.''\<rparr>,
                        db)))))"

subsection \<open>What the specification calls an integer\<close>

text \<open>
  The specification's words for a \<^verbatim>\<open>points\<close> parameter that parses as an integer,
  read strictly: an optional sign followed by decimal digits and nothing else. This
  predicate is not part of the program; it is what the program is compared with.
\<close>

definition decimal_digit :: "char \<Rightarrow> bool" where
  "decimal_digit c \<longleftrightarrow> 48 \<le> (of_char c :: nat) \<and> (of_char c :: nat) \<le> 57"

definition integer_literal :: "string \<Rightarrow> bool" where
  "integer_literal s =
     (let ds = (if s \<noteq> [] \<and> (hd s = CHR ''+'' \<or> hd s = CHR ''-'') then tl s else s)
      in ds \<noteq> [] \<and> list_all decimal_digit ds)"

text \<open>The decimal numeral of a natural number, as a caller writes it in the query.\<close>

fun decimal :: "nat \<Rightarrow> string" where
  "decimal n =
     (if n < 10 then [char_of (48 + n)]
      else decimal (n div 10) @ [char_of (48 + n mod 10)])"

declare decimal.simps [simp del]

subsection \<open>Sample inputs\<close>

definition sample_config :: config where
  "sample_config = \<lparr>REWARD_ENDPOINT_SECRET = ''s3cret'', APP_ID = ''kkoin''\<rparr>"

definition sample_env :: "tx_outcome \<Rightarrow> env" where
  "sample_env outcome = \<lparr>toDateString = ''Tue Nov 03 2026'', transaction_outcome = outcome\<rparr>"

text \<open>The request \<^verbatim>\<open>/monetag-reward?user_id=u&secret=s&points=p\<close>.\<close>

definition postback :: "string \<Rightarrow> string \<Rightarrow> string \<Rightarrow> request" where
  "postback u s p = \<lparr>query = [''user_id'' \<mapsto> u, ''secret'' \<mapsto> s, ''points'' \<mapsto> p]\<rparr>"

definition sample_profile :: "string \<Rightarrow> fsnum \<Rightarrow> profile" where
  "sample_profile u n =
     \<lparr>userId = u, points = n, referrals = 3, claimedTasks = [''task1''],
      lastAdWatchDate = ''Mon Nov 02 2026'', adsWatchedToday = 7,
      processingWithdrawal = True\<rparr>"

text \<open>The reference of the profile of user \<open>u\<close> in the sample configuration.\<close>

definition sample_ref :: "string \<Rightarrow> doc_ref" where
  "sample_ref u = [''artifacts'', ''kkoin'', ''users'', u, ''data'', ''profile'']"

section \<open>Properties\<close>

subsection \<open>The numbers \<^verbatim>\<open>parseInt\<close> returns\<close>

lemma bit_length_le_iff: "bit_length n \<le> k \<longleftrightarrow> n < 2 ^ k"
proof (induction n arbitrary: k rule: bit_length.induct)
  case (1 n)
  show ?case
  proof (cases "n = 0")
    case True
    then show ?thesis by (simp add: bit_length.simps)
  next
    case False
    show ?thesis
    proof (cases k)
      case 0
      with False show ?thesis by (simp add: bit_length.simps)
    next
      case (Suc k')
      have "bit_length n \<le> k \<longleftrightarrow> bit_length (n div 2) \<le> k'"
        using False Suc by (subst bit_length.simps) simp
      also have "\<dots> \<longleftrightarrow> n div 2 < 2 ^ k'"
        using "1.IH" [OF False] .
      also have "\<dots> \<longleftrightarrow> n < 2 ^ k"
        using Suc by auto
      finally show ?thesis .
    qed
  qed
qed

lemma round53_exact:
  assumes "n \<le> 2 ^ 53"
  shows "round53 n = n"
proof (cases "n < 2 ^ 53")
  case True
  then have "bit_length n \<le> 53" by (simp add: bit_length_le_iff)
  then show ?thesis by (simp add: round53_def)
next
  case False
  with assms have n: "n = 2 ^ 53" by simp
  have "bit_length n \<le> 54" and "\<not> bit_length n \<le> 53"
    unfolding bit_length_le_iff by (simp_all add: n)
  then have "bit_length n = 54" by simp
  then show ?thesis by (simp add: round53_def n)
qed

lemma round53_pos:
  assumes "0 < n"
  shows "0 < round53 n"
proof (cases "bit_length n \<le> 53")
  case True
  with assms show ?thesis by (simp add: round53_def)
next
  case False
  define e where "e = bit_length n - 53"
  have "\<not> bit_length n \<le> bit_length n - 1"
    using False by simp
  then have a: "2 ^ (bit_length n - 1) \<le> n"
    unfolding bit_length_le_iff by simp
  have b: "(2::nat) ^ e \<le> 2 ^ (bit_length n - 1)"
    unfolding e_def by (rule power_increasing) simp_all
  have "2 ^ e \<le> n"
    using b a by (rule order_trans)
  then have "0 < n div 2 ^ e"
    by (simp add: div_greater_zero_iff)
  then show ?thesis
    using False by (simp add: round53_def Let_def e_def)
qed

lemma to_double_positive:
  assumes "0 < n"
  shows "\<not> isNaN (to_double (int n)) \<and> \<not> js_le (to_double (int n)) (Fin 0)"
  using round53_pos [OF assms] by (simp add: to_double_def Let_def)

lemma to_double_exact:
  assumes "n \<le> 2 ^ 53"
  shows "to_double (int n) = Fin (int n)"
proof -
  have "n < 2 ^ 1024"
    using assms by (rule le_less_trans) simp
  then show ?thesis
    using round53_exact [OF assms] by (simp add: to_double_def)
qed


lemma bit_length_less: "n < 2 ^ bit_length n"
  using bit_length_le_iff [of n "bit_length n"] by simp

lemma bit_length_lower:
  assumes "0 < bit_length n"
  shows "2 ^ (bit_length n - 1) \<le> n"
proof -
  have "\<not> bit_length n \<le> bit_length n - 1"
    using assms by simp
  then show ?thesis
    unfolding bit_length_le_iff by simp
qed

lemma bit_length_mono:
  assumes "a \<le> x"
  shows "bit_length a \<le> bit_length x"
  unfolding bit_length_le_iff using assms bit_length_less [of x] by simp

lemma round53_quotient:
  assumes "53 < bit_length n"
  shows "2 ^ 52 \<le> n div 2 ^ (bit_length n - 53)" and "n div 2 ^ (bit_length n - 53) < 2 ^ 53"
proof -
  let ?e = "bit_length n - 53"
  have "(2::nat) ^ (53 + ?e) = 2 ^ 53 * 2 ^ ?e" and "(2::nat) ^ (52 + ?e) = 2 ^ 52 * 2 ^ ?e"
    by (rule power_add)+
  moreover have "53 + ?e = bit_length n" and "52 + ?e = bit_length n - 1"
    using assms by simp_all
  ultimately have e: "(2::nat) ^ bit_length n = 2 ^ 53 * 2 ^ ?e"
    "(2::nat) ^ (bit_length n - 1) = 2 ^ 52 * 2 ^ ?e"
    by simp_all
  have "n < 2 ^ 53 * 2 ^ ?e"
    using bit_length_less [of n] unfolding e .
  then show "n div 2 ^ ?e < 2 ^ 53"
    by (simp add: less_mult_imp_div_less)
  have "2 ^ (bit_length n - 1) \<le> n"
    using bit_length_lower [of n] assms by simp
  then have "2 ^ 52 * 2 ^ ?e \<le> n"
    unfolding e .
  then have "(2 ^ 52 * 2 ^ ?e) div 2 ^ ?e \<le> n div 2 ^ ?e"
    by (rule div_le_mono)
  then show "2 ^ 52 \<le> n div 2 ^ ?e"
    by simp
qed

lemma round53_bounds:
  assumes "53 < bit_length n"
  shows "n div 2 ^ (bit_length n - 53) * 2 ^ (bit_length n - 53) \<le> round53 n"
    and "round53 n \<le> (n div 2 ^ (bit_length n - 53) + 1) * 2 ^ (bit_length n - 53)"
  using assms by (simp_all add: round53_def Let_def)

lemma round53_dvd:
  assumes "2 ^ (bit_length n - 53) dvd n"
  shows "round53 n = n"
proof (cases "bit_length n \<le> 53")
  case True
  then show ?thesis by (simp add: round53_def)
next
  case False
  let ?e = "bit_length n - 53"
  have r: "n mod 2 ^ ?e = 0"
    using assms by (simp add: mod_eq_0_iff_dvd)
  have d: "n div 2 ^ ?e * 2 ^ ?e = n"
    using assms by simp
  from False r d show ?thesis
    by (simp add: round53_def Let_def)
qed

lemma round53_fixed_dvd:
  assumes "round53 a = a"
  shows "2 ^ (bit_length a - 53) dvd a"
proof (cases "bit_length a \<le> 53")
  case True
  then show ?thesis by simp
next
  case False
  let ?e = "bit_length a - 53"
  have "round53 a = (if 2 ^ (?e - 1) < a mod 2 ^ ?e \<or> (a mod 2 ^ ?e = 2 ^ (?e - 1) \<and> odd (a div 2 ^ ?e))
                     then a div 2 ^ ?e + 1 else a div 2 ^ ?e) * 2 ^ ?e"
    using False by (simp add: round53_def Let_def)
  then have "2 ^ ?e dvd round53 a"
    by simp
  with assms show ?thesis by simp
qed

lemma round53_not_below:
  assumes "round53 a = a" and "a \<le> x"
  shows "a \<le> round53 x"
proof (cases "bit_length x \<le> 53")
  case True
  with assms(2) show ?thesis by (simp add: round53_def)
next
  case False
  let ?e = "bit_length x - 53"
  let ?q = "x div 2 ^ ?e"
  from False have big: "53 < bit_length x" by simp
  note low = round53_bounds(1) [OF big]
  show ?thesis
  proof (cases "bit_length a = bit_length x")
    case True
    from round53_fixed_dvd [OF assms(1)] obtain c where c: "a = 2 ^ ?e * c"
      unfolding True by (auto simp: dvd_def)
    with assms(2) have "c * 2 ^ ?e \<le> x" by (simp add: mult.commute)
    then have "c \<le> ?q"
      by (simp add: less_eq_div_iff_mult_less_eq)
    then have "a \<le> ?q * 2 ^ ?e"
      unfolding c by (simp add: mult.commute)
    then show ?thesis using low by (rule order_trans)
  next
    case False
    with bit_length_mono [OF assms(2)] have "bit_length a \<le> bit_length x - 1" by simp
    then have "a < 2 ^ (bit_length x - 1)"
      unfolding bit_length_le_iff .
    also have "bit_length x - 1 = 52 + ?e" using big by simp
    finally have "a < 2 ^ 52 * 2 ^ ?e" by (simp add: power_add)
    also have "\<dots> \<le> ?q * 2 ^ ?e"
      using round53_quotient(1) [OF big] by simp
    finally show ?thesis using low by simp
  qed
qed

lemma round53_not_above:
  assumes "round53 a = a" and "x \<le> a"
  shows "round53 x \<le> a"
proof (cases "bit_length x \<le> 53")
  case True
  with assms(2) show ?thesis by (simp add: round53_def)
next
  case False
  let ?e = "bit_length x - 53"
  let ?q = "x div 2 ^ ?e"
  from False have big: "53 < bit_length x" by simp
  note up = round53_bounds(2) [OF big]
  show ?thesis
  proof (cases "2 ^ ?e dvd x")
    case True
    then have "round53 x = x" by (rule round53_dvd)
    with assms(2) show ?thesis by simp
  next
    case nd: False
    show ?thesis
    proof (cases "bit_length a = bit_length x")
      case True
      from round53_fixed_dvd [OF assms(1)] obtain c where c: "a = 2 ^ ?e * c"
        unfolding True by (auto simp: dvd_def)
      have "2 ^ ?e dvd a" unfolding c by simp
      with nd have "x \<noteq> a" by auto
      with assms(2) have "x < c * 2 ^ ?e" using c by (simp add: mult.commute)
      then have "?q < c"
        by (simp add: div_less_iff_less_mult)
      then have "(?q + 1) * 2 ^ ?e \<le> c * 2 ^ ?e"
        by (intro mult_le_mono1) simp
      then have "(?q + 1) * 2 ^ ?e \<le> a"
        unfolding c by (simp add: mult.commute)
      with up show ?thesis by (rule order_trans)
    next
      case False
      with bit_length_mono [OF assms(2)] have "\<not> bit_length a \<le> bit_length x" by simp
      then have "2 ^ bit_length x \<le> a"
        unfolding bit_length_le_iff by simp
      moreover have "(2::nat) ^ (53 + ?e) = 2 ^ 53 * 2 ^ ?e"
        by (rule power_add)
      moreover have "53 + ?e = bit_length x" using big by simp
      ultimately have a: "2 ^ 53 * 2 ^ ?e \<le> a" by simp
      have "(?q + 1) * 2 ^ ?e \<le> 2 ^ 53 * 2 ^ ?e"
        using round53_quotient(2) [OF big] by (intro mult_le_mono1) simp
      then have "(?q + 1) * 2 ^ ?e \<le> a"
        using a by (rule order_trans)
      with up show ?thesis by (rule order_trans)
    qed
  qed
qed

lemma round53_idem: "round53 (round53 n) = round53 n"
proof (cases "bit_length n \<le> 53")
  case True
  then show ?thesis by (simp add: round53_def)
next
  case False
  let ?e = "bit_length n - 53"
  let ?q = "n div 2 ^ ?e"
  let ?m = "round53 n"
  from False have big: "53 < bit_length n" by simp
  have "?m = (if 2 ^ (?e - 1) < n mod 2 ^ ?e \<or> (n mod 2 ^ ?e = 2 ^ (?e - 1) \<and> odd ?q)
              then ?q + 1 else ?q) * 2 ^ ?e"
    using False by (simp add: round53_def Let_def)
  then have dvd: "2 ^ ?e dvd ?m" by simp
  have "?m \<le> (?q + 1) * 2 ^ ?e" by (rule round53_bounds(2) [OF big])
  also have "\<dots> \<le> 2 ^ 53 * 2 ^ ?e"
    using round53_quotient(2) [OF big] by (intro mult_le_mono1) simp
  also have "\<dots> = 2 ^ (53 + ?e)" by (simp add: power_add)
  finally have le: "?m \<le> 2 ^ (53 + ?e)" .
  show ?thesis
  proof (cases "?m = 2 ^ (53 + ?e)")
    case True
    have "bit_length ?m \<le> 54 + ?e"
      unfolding bit_length_le_iff True by simp
    then have "bit_length ?m - 53 \<le> 53 + ?e" by simp
    then have "(2::nat) ^ (bit_length ?m - 53) dvd 2 ^ (53 + ?e)"
      by (rule le_imp_power_dvd)
    then show ?thesis
      by (intro round53_dvd) (simp add: True [symmetric])
  next
    case False
    with le have "?m < 2 ^ (53 + ?e)" by simp
    then have "bit_length ?m \<le> 53 + ?e"
      unfolding bit_length_le_iff .
    then have "bit_length ?m - 53 \<le> ?e" by simp
    then have "(2::nat) ^ (bit_length ?m - 53) dvd 2 ^ ?e"
      by (rule le_imp_power_dvd)
    with dvd have "2 ^ (bit_length ?m - 53) dvd ?m"
      by (rule dvd_trans [rotated])
    then show ?thesis by (rule round53_dvd)
  qed
qed


lemma round53_error:
  assumes "n \<le> 2 ^ 63"
  shows "n \<le> round53 n + 2048" and "round53 n \<le> n + 2048"
proof -
  show "n \<le> round53 n + 2048" and "round53 n \<le> n + 2048"
  proof (atomize (full), cases "bit_length n \<le> 53")
    case True
    then show "n \<le> round53 n + 2048 \<and> round53 n \<le> n + 2048"
      by (simp add: round53_def)
  next
    case False
    let ?e = "bit_length n - 53"
    let ?q = "n div 2 ^ ?e"
    from False have big: "53 < bit_length n" by simp
    have "n < 2 ^ 64"
      using assms by (rule le_less_trans) simp
    then have "bit_length n \<le> 64"
      unfolding bit_length_le_iff .
    then have "?e \<le> 11" by simp
    then have "(2::nat) ^ ?e \<le> 2 ^ 11"
      by (intro power_increasing) simp_all
    then have pe: "(2::nat) ^ ?e \<le> 2048" by simp
    have split: "?q * 2 ^ ?e + n mod 2 ^ ?e = n"
      by (rule div_mult_mod_eq)
    have r: "n mod 2 ^ ?e < 2 ^ ?e"
      by simp
    note b = round53_bounds [OF big]
    have "(?q + 1) * 2 ^ ?e = ?q * 2 ^ ?e + 2 ^ ?e"
      by (simp add: algebra_simps)
    with b(2) have up: "round53 n \<le> ?q * 2 ^ ?e + 2 ^ ?e" by simp
    from split r pe b(1) up show "n \<le> round53 n + 2048 \<and> round53 n \<le> n + 2048"
      by linarith
  qed
qed

lemma to_double_magnitude:
  "to_double i =
     (if 2 ^ 1024 \<le> round53 (nat \<bar>i\<bar>) then (if i < 0 then NegInf else PosInf)
      else Fin (if i < 0 then - int (round53 (nat \<bar>i\<bar>)) else int (round53 (nat \<bar>i\<bar>))))"
  unfolding to_double_def Let_def ..

lemma to_double_fixed:
  assumes "to_double R = Fin R"
  shows "round53 (nat \<bar>R\<bar>) = nat \<bar>R\<bar>" and "nat \<bar>R\<bar> < 2 ^ 1024"
proof -
  define m where "m = round53 (nat \<bar>R\<bar>)"
  have "to_double R =
        (if 2 ^ 1024 \<le> m then (if R < 0 then NegInf else PosInf)
         else Fin (if R < 0 then - int m else int m))"
    unfolding m_def by (rule to_double_magnitude)
  with assms have lt: "\<not> 2 ^ 1024 \<le> m" and eq: "(if R < 0 then - int m else int m) = R"
    by (simp_all split: if_splits)
  from eq have "int m = \<bar>R\<bar>"
    by (cases "R < 0") simp_all
  then have "m = nat \<bar>R\<bar>" by linarith
  then show "round53 (nat \<bar>R\<bar>) = nat \<bar>R\<bar>"
    unfolding m_def .
  from lt \<open>m = nat \<bar>R\<bar>\<close> show "nat \<bar>R\<bar> < 2 ^ 1024" by simp
qed

lemma to_double_fixedI:
  assumes "round53 (nat \<bar>R\<bar>) = nat \<bar>R\<bar>" and "nat \<bar>R\<bar> < 2 ^ 1024"
  shows "to_double R = Fin R"
  unfolding to_double_magnitude assms(1) using assms(2) by simp

lemma to_double_idem:
  assumes "to_double i = Fin j"
  shows "to_double j = Fin j"
proof -
  let ?m = "round53 (nat \<bar>i\<bar>)"
  from assms have m: "?m < 2 ^ 1024" and j: "j = (if i < 0 then - int ?m else int ?m)"
    unfolding to_double_magnitude by (simp_all split: if_splits)
  from j have "nat \<bar>j\<bar> = ?m" by (simp split: if_splits)
  with m show ?thesis
    by (intro to_double_fixedI) (simp_all add: round53_idem)
qed

lemma is_double_to_double: "is_double (to_double i)"
proof (cases "to_double i")
  case (Fin j)
  then show ?thesis
    by (simp add: is_double_def to_double_idem)
qed (simp_all add: is_double_def)

lemma is_double_double_add: "is_double (double_add x y)"
  by (cases x; cases y) (simp_all add: is_double_to_double, simp_all add: is_double_def)

lemma is_double_Rep_double: "is_double (Rep_double d)"
  using Rep_double [of d] by simp

lemma Rep_double_of:
  assumes "is_double v"
  shows "Rep_double (double_of v) = v"
proof -
  have "(case v of Fin i \<Rightarrow> to_double i | _ \<Rightarrow> v) = v"
    using assms by (cases v) (simp_all add: is_double_def)
  with assms show ?thesis
    by (simp add: double_of_def Abs_double_inverse)
qed

lemma to_double_not_below:
  assumes "to_double R = Fin R" and "R \<le> x"
  shows "js_le (Fin R) (to_double x)"
proof (cases "0 \<le> R")
  case True
  with assms(2) have "nat \<bar>R\<bar> \<le> nat \<bar>x\<bar>" by simp
  with to_double_fixed(1) [OF assms(1)] have "nat \<bar>R\<bar> \<le> round53 (nat \<bar>x\<bar>)"
    by (rule round53_not_below)
  with True have "R \<le> int (round53 (nat \<bar>x\<bar>))" by linarith
  moreover have "\<not> x < 0" using True assms(2) by simp
  ultimately show ?thesis
    unfolding to_double_magnitude by simp
next
  case neg: False
  show ?thesis
  proof (cases "x < 0")
    case True
    with assms(2) have "nat \<bar>x\<bar> \<le> nat \<bar>R\<bar>" by simp
    with to_double_fixed(1) [OF assms(1)] have le: "round53 (nat \<bar>x\<bar>) \<le> nat \<bar>R\<bar>"
      by (rule round53_not_above)
    with to_double_fixed(2) [OF assms(1)] have "\<not> 2 ^ 1024 \<le> round53 (nat \<bar>x\<bar>)"
      by simp
    moreover from le neg have "R \<le> - int (round53 (nat \<bar>x\<bar>))" by linarith
    ultimately show ?thesis
      unfolding to_double_magnitude using True by simp
  next
    case False
    have "0 \<le> int (round53 (nat \<bar>x\<bar>))" by simp
    with neg have "R \<le> int (round53 (nat \<bar>x\<bar>))" by linarith
    with False show ?thesis
      unfolding to_double_magnitude by simp
  qed
qed

subsection \<open>Arithmetic of the store\<close>

lemma js_le_trans:
  assumes "js_le a b" and "js_le b c"
  shows "js_le a c"
  using assms by (cases a; cases b; cases c) simp_all

lemma sint64_bounds: "- (2 ^ 63) \<le> sint (w :: 64 word)" "sint (w :: 64 word) \<le> 2 ^ 63 - 1"
  using sint_ge [of w] sint_lt [of w] by simp_all

lemma sint64_of_int:
  assumes "- (2 ^ 63) \<le> i" and "i \<le> 2 ^ 63 - 1"
  shows "sint (word_of_int i :: 64 word) = i"
  using assms by (simp add: sint_sbintrunc' signed_take_bit_int_eq_self)

lemma int64_to_double:
  obtains A where "to_double (sint (w :: 64 word)) = Fin A" and "sint w - 2048 \<le> A"
proof -
  let ?m = "nat \<bar>sint w\<bar>"
  let ?A = "if sint w < 0 then - int (round53 ?m) else int (round53 ?m)"
  have m: "?m \<le> 2 ^ 63"
    using sint64_bounds [of w] by simp
  note e = round53_error [OF m]
  have "round53 ?m \<le> 2 ^ 63 + 2048" using e(2) m by simp
  also have "\<dots> < (2::nat) ^ 1024" by simp
  finally have "\<not> 2 ^ 1024 \<le> round53 ?m" by simp
  then have "to_double (sint w) = Fin ?A"
    unfolding to_double_magnitude by simp
  moreover have "sint w - 2048 \<le> ?A"
  proof (cases "sint w < 0")
    case True
    from e(2) have "int (round53 ?m) \<le> int ?m + 2048" by linarith
    with True show ?thesis by simp
  next
    case False
    from e(1) have "int ?m \<le> int (round53 ?m) + 2048" by linarith
    with False show ?thesis by simp
  qed
  ultimately show ?thesis by (rule that)
qed

lemma multiple_of_2048_is_double:
  assumes "2048 dvd R" and "\<bar>R\<bar> \<le> 2 ^ 63"
  shows "to_double R = Fin R"
proof (rule to_double_fixedI)
  let ?m = "nat \<bar>R\<bar>"
  have m: "?m \<le> 2 ^ 63" using assms(2) by simp
  then have "?m < 2 ^ 64" by (rule le_less_trans) simp
  then have "bit_length ?m \<le> 64" unfolding bit_length_le_iff .
  then have "bit_length ?m - 53 \<le> 11" by simp
  then have "(2::nat) ^ (bit_length ?m - 53) dvd 2 ^ 11"
    by (rule le_imp_power_dvd)
  moreover have "(2::nat) ^ 11 dvd ?m"
    using assms(1) by (simp add: nat_dvd_iff)
  ultimately have "2 ^ (bit_length ?m - 53) dvd ?m"
    by (rule dvd_trans)
  then show "round53 ?m = ?m" by (rule round53_dvd)
  show "?m < 2 ^ 1024" using m by (rule le_less_trans) simp
qed

lemma int64_plus_double_not_below:
  assumes "2 ^ 53 \<le> n"
  shows "js_le (Fin (sint w)) (double_add (to_double (sint (w :: 64 word))) (Fin n))"
proof -
  obtain A where A: "to_double (sint w) = Fin A" "sint w - 2048 \<le> A"
    by (rule int64_to_double)
  define R where "R = (sint w + 2047) div 2048 * 2048"
  have R: "sint w \<le> R" "R \<le> sint w + 2047" "2048 dvd R"
    unfolding R_def by (simp_all add: algebra_simps)
  have "(sint w + 2047) div 2048 \<le> (2 ^ 63 - 1 + 2047) div 2048"
    using sint64_bounds(2) [of w] by (intro zdiv_mono1) simp_all
  then have "R \<le> 2 ^ 63"
    unfolding R_def by simp
  moreover have "- (2 ^ 63) \<le> R"
    using R(1) sint64_bounds(1) [of w] by simp
  ultimately have "\<bar>R\<bar> \<le> 2 ^ 63"
    by simp
  with R(3) have "to_double R = Fin R" by (rule multiple_of_2048_is_double)
  moreover have "R \<le> A + n" using R(2) A(2) assms by simp
  ultimately have "js_le (Fin R) (to_double (A + n))" by (rule to_double_not_below)
  moreover have "js_le (Fin (sint w)) (Fin R)" using R(1) by simp
  ultimately have "js_le (Fin (sint w)) (to_double (A + n))"
    by (rule js_le_trans [rotated])
  then show ?thesis
    unfolding A(1) by simp
qed


lemma fs_value_Integer [simp]: "fs_value (IntegerValue i) = Fin (sint i)"
  by (simp add: fs_value_def)

lemma fs_value_Double [simp]: "fs_value (DoubleValue d) = Rep_double d"
  by (simp add: fs_value_def)

lemma Rep_double_of_int64 [simp]: "Rep_double (double_of_int64 i) = to_double (sint i)"
  by (simp add: double_of_int64_def Rep_double_of is_double_to_double)

lemma Rep_double_add [simp]: "Rep_double (double_of (double_add x y)) = double_add x y"
  by (simp add: Rep_double_of is_double_double_add)

lemma fs_value_encodeValue:
  assumes "is_double v"
  shows "fs_value (encodeValue v) = v"
proof (cases v)
  case (Fin i)
  show ?thesis
  proof (cases "- (2 ^ 53 - 1) \<le> i \<and> i \<le> 2 ^ 53 - 1")
    case True
    then have "sint (word_of_int i :: 64 word) = i"
      by (intro sint64_of_int) simp_all
    with True Fin show ?thesis by (simp add: encodeValue_def)
  next
    case False
    with Fin assms show ?thesis by (auto simp: encodeValue_def Rep_double_of)
  qed
qed (use assms in \<open>simp_all add: encodeValue_def Rep_double_of\<close>)

text \<open>What the store's increment does to the value, by the kinds of the two numbers.\<close>

lemma fs_value_increment_integers:
  "fs_value (increment (IntegerValue a) (IntegerValue b)) =
   Fin (max (- (2 ^ 63)) (min (2 ^ 63 - 1) (sint a + sint b)))"
proof -
  define c where "c = max (- (2 ^ 63)) (min (2 ^ 63 - 1) (sint a + sint b))"
  have "- (2 ^ 63) \<le> c" and "c \<le> 2 ^ 63 - 1"
    by (simp_all add: c_def)
  then have "sint (word_of_int c :: 64 word) = c"
    by (rule sint64_of_int)
  moreover have "increment (IntegerValue a) (IntegerValue b) = IntegerValue (word_of_int c)"
    unfolding c_def by (rule increment.simps)
  ultimately show ?thesis
    unfolding c_def [symmetric] by simp
qed

lemma fs_value_increment_doubles:
  "fs_value (increment (IntegerValue a) (DoubleValue y)) =
     double_add (to_double (sint a)) (Rep_double y)"
  "fs_value (increment (DoubleValue x) (IntegerValue b)) =
     double_add (Rep_double x) (to_double (sint b))"
  "fs_value (increment (DoubleValue x) (DoubleValue y)) =
     double_add (Rep_double x) (Rep_double y)"
  by (simp_all add: increment.simps)

lemmas fs_value_increment = fs_value_increment_integers fs_value_increment_doubles

lemma double_add_not_below:
  assumes "is_double x" and "x \<noteq> NaN" and "x \<noteq> NegInf"
    and "y = PosInf \<or> (\<exists>n. y = Fin n \<and> 0 < n)"
  shows "js_le x (double_add x y)"
proof (cases x)
  case (Fin a)
  with assms(1) have a: "to_double a = Fin a" by (simp add: is_double_def)
  from assms(4) show ?thesis
  proof
    assume "y = PosInf"
    with Fin show ?thesis by simp
  next
    assume "\<exists>n. y = Fin n \<and> 0 < n"
    then obtain n where n: "y = Fin n" "0 < n" by blast
    have "js_le (Fin a) (to_double (a + n))"
      using a by (rule to_double_not_below) (use n in simp)
    with Fin n show ?thesis by simp
  qed
next
  case PosInf
  with assms(4) show ?thesis by auto
qed (use assms in simp_all)

lemma increment_not_below:
  assumes "is_double r" and "\<not> isNaN r" and "\<not> js_le r (Fin 0)"
    and "fs_value v \<noteq> NaN" and "fs_value v \<noteq> NegInf"
  shows "js_le (fs_value v) (fs_value (increment v (encodeValue r)))"
proof -
  from assms(2,3) have r: "r = PosInf \<or> (\<exists>n. r = Fin n \<and> 0 < n)"
    by (cases r) simp_all
  show ?thesis
  proof (cases v)
    case (DoubleValue x)
    have x: "is_double (Rep_double x)" by (rule is_double_Rep_double)
    from r show ?thesis
    proof (cases "encodeValue r")
      case (IntegerValue b)
      then have "Fin (sint b) = r"
        using fs_value_encodeValue [OF assms(1)] by simp
      then have "to_double (sint b) = r"
        using assms(1) by (auto simp: is_double_def)
      with DoubleValue IntegerValue show ?thesis
        using double_add_not_below [OF x _ _ r] assms(4,5)
        by (simp add: fs_value_increment)
    next
      case (DoubleValue y)
      then have "Rep_double y = r"
        using fs_value_encodeValue [OF assms(1)] by simp
      with \<open>v = DoubleValue x\<close> DoubleValue show ?thesis
        using double_add_not_below [OF x _ _ r] assms(4,5)
        by (simp add: fs_value_increment)
    qed
  next
    case (IntegerValue a)
    show ?thesis
    proof (cases "encodeValue r")
      case b: (IntegerValue b)
      then have "Fin (sint b) = r"
        using fs_value_encodeValue [OF assms(1)] by simp
      with r have "0 < sint b" by auto
      with sint64_bounds [of a]
      have "sint a \<le> max (- (2 ^ 63)) (min (2 ^ 63 - 1) (sint a + sint b))"
        by simp
      with IntegerValue b show ?thesis
        by (simp add: fs_value_increment)
    next
      case (DoubleValue y)
      then have y: "Rep_double y = r"
        using fs_value_encodeValue [OF assms(1)] by simp
      from r show ?thesis
      proof
        assume "r = PosInf"
        moreover obtain A where "to_double (sint a) = Fin A"
          by (rule int64_to_double)
        ultimately show ?thesis
          using IntegerValue DoubleValue y by (simp add: fs_value_increment)
      next
        assume "\<exists>n. r = Fin n \<and> 0 < n"
        then obtain n where n: "r = Fin n" "0 < n" by blast
        have "\<not> (- (2 ^ 53 - 1) \<le> n \<and> n \<le> 2 ^ 53 - 1)"
          using DoubleValue n by (auto simp: encodeValue_def)
        with n(2) have "2 ^ 53 \<le> n" by simp
        then have "js_le (Fin (sint a)) (double_add (to_double (sint a)) (Fin n))"
          by (rule int64_plus_double_not_below)
        with IntegerValue DoubleValue y n show ?thesis
          by (simp add: fs_value_increment)
      qed
    qed
  qed
qed

lemma increment_nonneg:
  assumes "is_double r" and "\<not> isNaN r" and "\<not> js_le r (Fin 0)"
    and "js_le (Fin 0) (fs_value v)"
  shows "js_le (Fin 0) (fs_value (increment v (encodeValue r)))"
proof -
  from assms(4) have "fs_value v \<noteq> NaN" and "fs_value v \<noteq> NegInf"
    by (cases "fs_value v"; simp)+
  with assms(1-3) have "js_le (fs_value v) (fs_value (increment v (encodeValue r)))"
    by (rule increment_not_below)
  with assms(4) show ?thesis by (rule js_le_trans)
qed

subsection \<open>Decimal numerals\<close>

lemma digit_value_char_of:
  assumes "d < 10"
  shows "digit_value (char_of (48 + d)) = d"
  using assms by (simp add: digit_value_def)

lemma decimal_digits: "c \<in> set (decimal n) \<Longrightarrow> digit_value c < 10"
proof (induction n rule: decimal.induct)
  case (1 n)
  then show ?case
    by (subst (asm) (2) decimal.simps) (auto simp: digit_value_char_of split: if_splits)
qed

lemma decimal_not_empty: "decimal n \<noteq> []"
  by (subst decimal.simps) simp

lemma digits_value_snoc:
  "digits_value R (Z @ [c]) = digits_value R Z * R + digit_value c"
  by (simp add: digits_value_def)

lemma digits_value_decimal: "digits_value 10 (decimal n) = n"
proof (induction n rule: decimal.induct)
  case (1 n)
  show ?case
  proof (cases "n < 10")
    case True
    then show ?thesis
      by (subst decimal.simps) (simp add: digits_value_def digit_value_char_of)
  next
    case False
    then have "digits_value 10 (decimal n) =
               digits_value 10 (decimal (n div 10)) * 10 + digit_value (char_of (48 + n mod 10))"
      by (subst decimal.simps) (simp add: digits_value_snoc)
    then show ?thesis
      using "1.IH" [OF False] by (simp add: digit_value_char_of)
  qed
qed

lemma parseInt_decimal: "parseInt (decimal n) = to_double (int n)"
proof -
  have dig: "\<And>c. c \<in> set (decimal n) \<Longrightarrow> digit_value c < 10"
    by (rule decimal_digits)
  have hd_in: "hd (decimal n) \<in> set (decimal n)"
    using decimal_not_empty by simp
  have ws: "\<not> StrWhiteSpaceChar (hd (decimal n))"
    using dig [OF hd_in] by (auto simp: StrWhiteSpaceChar_def digit_value_def)
  have sgn: "hd (decimal n) \<noteq> CHR ''-''" "hd (decimal n) \<noteq> CHR ''+''"
    using dig [OF hd_in] by (auto simp: digit_value_def)
  have drop: "dropWhile StrWhiteSpaceChar (decimal n) = decimal n"
    using ws decimal_not_empty by (cases "decimal n") simp_all
  have x: "CHR ''x'' \<notin> set (decimal n)" "CHR ''X'' \<notin> set (decimal n)"
    using dig [of "CHR ''x''"] dig [of "CHR ''X''"] by (auto simp: digit_value_def)
  have nohex: "take 2 (decimal n) \<noteq> ''0x''" "take 2 (decimal n) \<noteq> ''0X''"
  proof -
    show "take 2 (decimal n) \<noteq> ''0x''"
    proof
      assume "take 2 (decimal n) = ''0x''"
      then have "CHR ''x'' \<in> set (take 2 (decimal n))" by simp
      with x(1) show False by (blast dest: in_set_takeD)
    qed
    show "take 2 (decimal n) \<noteq> ''0X''"
    proof
      assume "take 2 (decimal n) = ''0X''"
      then have "CHR ''X'' \<in> set (take 2 (decimal n))" by simp
      with x(2) show False by (blast dest: in_set_takeD)
    qed
  qed
  have tw: "takeWhile (radix_digit 10) (decimal n) = decimal n"
    using dig by (simp add: radix_digit_def takeWhile_eq_all_conv)
  show ?thesis
    using decimal_not_empty
    by (simp add: parseInt_def drop sgn nohex tw digits_value_decimal Let_def)
qed

lemma decimal_50: "decimal 50 = ''50''"
  by (simp add: decimal.simps char_of_eq_iff)


lemma is_double_parseInt: "is_double (parseInt s)"
  by (simp add: parseInt_def Let_def is_double_to_double) (simp add: is_double_def)

subsection \<open>References\<close>

lemma split_slash_no_slash:
  assumes "CHR ''/'' \<notin> set s"
  shows "split_slash s = [s]"
  using assms by (induction s) auto

lemma has_double_slash_no_slash:
  assumes "CHR ''/'' \<notin> set s"
  shows "\<not> has_double_slash s"
  using assms by (induction s rule: has_double_slash.induct) auto

lemma append_path_segment:
  assumes "s \<noteq> []" and "CHR ''/'' \<notin> set s"
  shows "validateResourcePath s = None" and "append_path segments s = segments @ [s]"
  using assms
  by (simp_all add: validateResourcePath_def append_path_def split_slash_no_slash
      has_double_slash_no_slash)

lemmas path_eval =
  userDocRef_def on_ref_def collection_def doc_def validateResourcePath_def append_path_def
  isDocument_def isCollection_def

text \<open>An id without a slash is one segment of the path.\<close>

lemma userDocRef_segment:
  assumes "APP_ID cfg \<noteq> []" and "CHR ''/'' \<notin> set (APP_ID cfg)"
    and "uid \<noteq> []" and "CHR ''/'' \<notin> set uid"
  shows "userDocRef cfg uid = Inr [''artifacts'', APP_ID cfg, ''users'', uid, ''data'', ''profile'']"
proof -
  note a = append_path_segment [OF assms(1,2)] and u = append_path_segment [OF assms(3,4)]
  have c: "\<And>segs. validateResourcePath ''artifacts'' = None"
    "\<And>segs. append_path segs ''artifacts'' = segs @ [''artifacts'']"
    "\<And>segs. validateResourcePath ''users'' = None"
    "\<And>segs. append_path segs ''users'' = segs @ [''users'']"
    "\<And>segs. validateResourcePath ''data'' = None"
    "\<And>segs. append_path segs ''data'' = segs @ [''data'']"
    "\<And>segs. validateResourcePath ''profile'' = None"
    "\<And>segs. append_path segs ''profile'' = segs @ [''profile'']"
    by (simp_all add: validateResourcePath_def append_path_def)
  show ?thesis
    by (simp add: userDocRef_def on_ref_def collection_def doc_def a u c
        isDocument_def isCollection_def)
qed

lemma sample_userDocRef: "userDocRef sample_config ''u1'' = Inr (sample_ref ''u1'')"
  by (simp add: path_eval sample_config_def sample_ref_def)

subsection \<open>The transaction\<close>

lemma runTransaction_fails [simp]: "runTransaction (Fails e) db f = Inl e"
  by (simp add: runTransaction_def)

lemma reward_update_absent:
  assumes "db ref = None"
  shows "runTransaction Commits db (reward_update ref uid r today) =
         Inr (db(ref \<mapsto> \<lparr>userId = uid, points = encodeValue r, referrals = 0,
                           claimedTasks = [], lastAdWatchDate = today, adsWatchedToday = 1,
                           processingWithdrawal = False\<rparr>))"
  using assms
  by (simp add: runTransaction_def reward_update_def tx_get_def tx_set_def)

lemma reward_update_present:
  assumes "db ref = Some p"
  shows "runTransaction Commits db (reward_update ref uid r today) =
         Inr (db(ref \<mapsto> p\<lparr>points := increment (points p) (encodeValue r)\<rparr>))"
  using assms
  by (simp add: runTransaction_def reward_update_def tx_get_def tx_update_points_def)

text \<open>The handler once the secret and the parameters have passed both checks.\<close>

lemma monetag_reward_validated:
  assumes "query req ''secret'' = Some (REWARD_ENDPOINT_SECRET cfg)"
    and "query req ''user_id'' = Some uid" and "uid \<noteq> []"
    and "parseInt (ToString (query req ''points'')) = r"
    and "\<not> isNaN r" and "\<not> js_le r (Fin 0)"
  shows "monetag_reward cfg ev req db =
         (case userDocRef cfg uid of
            Inl thrown \<Rightarrow> (Inl thrown, db)
          | Inr ref \<Rightarrow>
             (case runTransaction (transaction_outcome ev) db
                     (reward_update ref uid r (toDateString ev)) of
                Inr db' \<Rightarrow> (Inr \<lparr>status = 200, body = ''Reward processed.''\<rparr>, db')
              | Inl error \<Rightarrow>
                  (Inr \<lparr>status = 500, body = ''Server Error during reward transaction.''\<rparr>,
                   db)))"
  using assms
  by (auto simp: monetag_reward_def js_not_def Let_def split: sum.splits)

lemma monetag_reward_credit:
  assumes "query req ''secret'' = Some (REWARD_ENDPOINT_SECRET cfg)"
    and "query req ''user_id'' = Some uid" and "uid \<noteq> []"
    and "userDocRef cfg uid = Inr ref" and "db ref = Some p"
    and "parseInt (ToString (query req ''points'')) = r"
    and "\<not> isNaN r" and "\<not> js_le r (Fin 0)"
    and "transaction_outcome ev = Commits"
  shows "monetag_reward cfg ev req db =
         (Inr \<lparr>status = 200, body = ''Reward processed.''\<rparr>,
          db(ref \<mapsto> p\<lparr>points := increment (points p) (encodeValue r)\<rparr>))"
  using assms
  by (simp add: monetag_reward_validated [where uid = uid and r = r] reward_update_present)

lemmas sample_defs =
  sample_config_def sample_env_def postback_def sample_profile_def sample_ref_def

lemmas parseInt_eval =
  parseInt_def ToString_def StrWhiteSpaceChar_def radix_digit_def digit_value_def
  digits_value_def to_double_def round53_def bit_length.simps Let_def

lemmas handler_eval =
  monetag_reward_def js_not_def runTransaction_def reward_update_def tx_get_def tx_set_def
  tx_update_points_def encodeValue_def path_eval

lemma monetag_reward_cases:
  obtains (unchanged) "snd (monetag_reward cfg ev req db) = db"
  | (committed) uid r ref where "is_double r" and "\<not> isNaN r" and "\<not> js_le r (Fin 0)"
      and "runTransaction Commits db (reward_update ref uid r (toDateString ev)) =
           Inr (snd (monetag_reward cfg ev req db))"
proof (cases "query req ''secret'' = Some (REWARD_ENDPOINT_SECRET cfg)
    \<and> \<not> js_not (query req ''user_id'')
    \<and> \<not> isNaN (parseInt (ToString (query req ''points'')))
    \<and> \<not> js_le (parseInt (ToString (query req ''points''))) (Fin 0)
    \<and> transaction_outcome ev = Commits")
  case False
  then have "snd (monetag_reward cfg ev req db) = db"
    by (cases "transaction_outcome ev")
      (auto simp: monetag_reward_def Let_def split: option.splits sum.splits)
  then show ?thesis by (rule unchanged)
next
  case True
  then obtain uid where uid: "query req ''user_id'' = Some uid" "uid \<noteq> []"
    by (auto simp: js_not_def split: option.splits)
  let ?r = "parseInt (ToString (query req ''points''))"
  note v = monetag_reward_validated [OF _ uid refl, of cfg ev db]
  show ?thesis
  proof (cases "userDocRef cfg uid")
    case (Inl thrown)
    with True v have "snd (monetag_reward cfg ev req db) = db" by simp
    then show ?thesis by (rule unchanged)
  next
    case (Inr ref)
    let ?run = "runTransaction Commits db (reward_update ref uid ?r (toDateString ev))"
    have "\<exists>db'. ?run = Inr db'"
      by (cases "db ref") (simp_all add: reward_update_absent reward_update_present)
    then obtain db' where run: "?run = Inr db'" ..
    with True v Inr have "snd (monetag_reward cfg ev req db) = db'" by simp
    with run have "?run = Inr (snd (monetag_reward cfg ev req db))" by simp
    with True show ?thesis
      by (intro committed [of ?r ref uid]) (simp_all add: is_double_parseInt)
  qed
qed

lemma reward_update_lookup:
  assumes "runTransaction Commits db (reward_update ref' uid r today) = Inr db'"
  shows "db' ref =
         (if ref = ref'
          then (case db ref of
                  None \<Rightarrow> Some \<lparr>userId = uid, points = encodeValue r, referrals = 0,
                                claimedTasks = [], lastAdWatchDate = today,
                                adsWatchedToday = 1, processingWithdrawal = False\<rparr>
                | Some p \<Rightarrow> Some (p\<lparr>points := increment (points p) (encodeValue r)\<rparr>))
          else db ref)"
proof (cases "db ref'")
  case None
  from assms [unfolded reward_update_absent [where db = db and ref = ref', OF None]]
  show ?thesis using None by auto
next
  case (Some q)
  from assms [unfolded reward_update_present [where db = db and ref = ref', OF Some]]
  show ?thesis using Some by auto
qed


subsection \<open>Sample numbers\<close>

lemma Rep_double_2_53:
  "Rep_double (double_of (Fin 9007199254740992)) = Fin 9007199254740992"
  by (rule Rep_double_of) (simp add: is_double_def parseInt_eval)

lemma increment_2_53_by_1:
  "increment (DoubleValue (double_of (Fin 9007199254740992))) (encodeValue (Fin 1)) =
   DoubleValue (double_of (Fin 9007199254740992))"
  by (simp add: encodeValue_def increment.simps Rep_double_2_53 parseInt_eval)

lemma increment_50_by_20: "increment (IntegerValue 50) (encodeValue (Fin 20)) = IntegerValue 70"
  by (simp add: encodeValue_def increment.simps)

lemma parseInt_samples:
  "parseInt ''1'' = Fin 1" "parseInt ''20'' = Fin 20" "parseInt ''50'' = Fin 50"
  by (simp_all add: parseInt_eval)

subsection \<open>Creation of a profile\<close>




subsection \<open>Credit to an existing profile\<close>

text \<open>
  Claim C2, as the code has it. A postback with the correct secret and valid parameters
  (a \<^verbatim>\<open>user_id\<close> from which the client builds the document reference, a \<^verbatim>\<open>points\<close>
  parameter that \<^verbatim>\<open>parseInt\<close> reads as a number above zero) for a user who has a
  profile, in a transaction that commits, answers 200 and replaces the profile by
  itself with \<open>points\<close> incremented by the parsed reward as the store adds numbers:
  \<open>userId\<close>, \<open>referrals\<close>, \<open>claimedTasks\<close>, \<open>lastAdWatchDate\<close>, \<open>adsWatchedToday\<close> and
  \<open>processingWithdrawal\<close> keep their values. The new balance is exactly \<open>a + n\<close> when
  the balance \<open>a\<close> is stored as an integer, the reward \<open>n\<close> is at most \<open>2 ^ 53 - 1\<close>
  and \<open>a + n\<close> is at most \<open>2 ^ 63 - 1\<close>.
\<close>

theorem monetag_reward_credits_existing:
  assumes "query req ''secret'' = Some (REWARD_ENDPOINT_SECRET cfg)"
    and "query req ''user_id'' = Some uid" and "uid \<noteq> []"
    and "userDocRef cfg uid = Inr ref" and "db ref = Some p"
    and "parseInt (ToString (query req ''points'')) = r"
    and "\<not> isNaN r" and "\<not> js_le r (Fin 0)"
    and "transaction_outcome ev = Commits"
  shows "\<exists>p'. monetag_reward cfg ev req db =
               (Inr \<lparr>status = 200, body = ''Reward processed.''\<rparr>, db(ref \<mapsto> p'))
           \<and> points p' = increment (points p) (encodeValue r)
           \<and> (\<forall>a n. points p = IntegerValue a \<and> r = Fin n \<and> n \<le> 2 ^ 53 - 1
                     \<and> sint a + n \<le> 2 ^ 63 - 1 \<longrightarrow>
                 fs_value (points p') = Fin (sint a + n))
           \<and> userId p' = userId p \<and> referrals p' = referrals p
           \<and> claimedTasks p' = claimedTasks p \<and> lastAdWatchDate p' = lastAdWatchDate p
           \<and> adsWatchedToday p' = adsWatchedToday p
           \<and> processingWithdrawal p' = processingWithdrawal p"
proof -
  let ?p' = "p\<lparr>points := increment (points p) (encodeValue r)\<rparr>"
  have "monetag_reward cfg ev req db =
        (Inr \<lparr>status = 200, body = ''Reward processed.''\<rparr>, db(ref \<mapsto> ?p'))"
    using assms by (rule monetag_reward_credit)
  moreover have "fs_value (points ?p') = Fin (sint a + n)"
    if "points p = IntegerValue a" "r = Fin n" "n \<le> 2 ^ 53 - 1" "sint a + n \<le> 2 ^ 63 - 1"
    for a n
  proof -
    from assms(8) that(2) have "0 < n" by simp
    with that(3) have enc: "encodeValue r = IntegerValue (word_of_int n)"
      by (simp add: encodeValue_def that(2))
    have n: "sint (word_of_int n :: 64 word) = n"
      using \<open>0 < n\<close> that(3) by (intro sint64_of_int) simp_all
    have "- (2 ^ 63) \<le> sint a + n"
      using sint64_bounds(1) [of a] \<open>0 < n\<close> by simp
    with that(4) have "max (- (2 ^ 63)) (min (2 ^ 63 - 1) (sint a + n)) = sint a + n"
      by simp
    then show ?thesis
      by (simp add: that(1) enc fs_value_increment_integers n)
  qed
  ultimately show ?thesis
    by (intro exI [of _ ?p']) simp
qed

theorem monetag_reward_credits_existing_witness:
  "\<exists>p'. monetag_reward sample_config (sample_env Commits) (postback ''u1'' ''s3cret'' ''20'')
            [sample_ref ''u1'' \<mapsto> sample_profile ''u1'' (IntegerValue 50)] =
          (Inr \<lparr>status = 200, body = ''Reward processed.''\<rparr>, [sample_ref ''u1'' \<mapsto> p'])
        \<and> points p' = IntegerValue 70 \<and> userId p' = ''u1'' \<and> referrals p' = 3
        \<and> claimedTasks p' = [''task1''] \<and> lastAdWatchDate p' = ''Mon Nov 02 2026''
        \<and> adsWatchedToday p' = 7 \<and> processingWithdrawal p' = True"
proof -
  let ?req = "postback ''u1'' ''s3cret'' ''20''"
  let ?p = "sample_profile ''u1'' (IntegerValue 50)"
  let ?db = "[sample_ref ''u1'' \<mapsto> ?p]"
  have r: "parseInt (ToString (query ?req ''points'')) = Fin 20"
    by (simp add: postback_def ToString_def parseInt_samples)
  from monetag_reward_credits_existing
    [of ?req sample_config "''u1''" "sample_ref ''u1''" ?db ?p "Fin 20" "sample_env Commits",
     OF _ _ _ sample_userDocRef _ r]
  obtain p' where
    "monetag_reward sample_config (sample_env Commits) ?req ?db =
     (Inr \<lparr>status = 200, body = ''Reward processed.''\<rparr>, ?db(sample_ref ''u1'' \<mapsto> p'))"
    and "points p' = increment (points ?p) (encodeValue (Fin 20))"
    and "userId p' = userId ?p"
    and "referrals p' = referrals ?p"
    and "claimedTasks p' = claimedTasks ?p"
    and "lastAdWatchDate p' = lastAdWatchDate ?p"
    and "adsWatchedToday p' = adsWatchedToday ?p"
    and "processingWithdrawal p' = processingWithdrawal ?p"
    by (auto simp: sample_config_def sample_env_def postback_def)
  then show ?thesis
    by (intro exI [of _ p']) (simp add: sample_profile_def increment_50_by_20)
qed

text \<open>
  Claim C2 as stated does not hold for every balance: a balance of \<open>2 ^ 53\<close>, stored as
  a double, credited with 1 is still \<open>2 ^ 53\<close>, and the answer is 200.
\<close>

theorem credit_at_2_53_adds_nothing:
  "monetag_reward sample_config (sample_env Commits) (postback ''u1'' ''s3cret'' ''1'')
     [sample_ref ''u1'' \<mapsto>
        sample_profile ''u1'' (DoubleValue (double_of (Fin 9007199254740992)))] =
   (Inr \<lparr>status = 200, body = ''Reward processed.''\<rparr>,
    [sample_ref ''u1'' \<mapsto>
       sample_profile ''u1'' (DoubleValue (double_of (Fin 9007199254740992)))])
   \<and> fs_value (DoubleValue (double_of (Fin 9007199254740992))) = Fin 9007199254740992"
proof -
  let ?req = "postback ''u1'' ''s3cret'' ''1''"
  let ?p = "sample_profile ''u1'' (DoubleValue (double_of (Fin 9007199254740992)))"
  have r: "parseInt (ToString (query ?req ''points'')) = Fin 1"
    by (simp add: postback_def ToString_def parseInt_samples)
  have "monetag_reward sample_config (sample_env Commits) ?req [sample_ref ''u1'' \<mapsto> ?p] =
        (Inr \<lparr>status = 200, body = ''Reward processed.''\<rparr>,
         [sample_ref ''u1'' \<mapsto> ?p]
           (sample_ref ''u1'' \<mapsto> ?p\<lparr>points := increment (points ?p) (encodeValue (Fin 1))\<rparr>))"
    by (rule monetag_reward_credit [OF _ _ _ sample_userDocRef _ r])
      (simp_all add: sample_config_def sample_env_def postback_def)
  then show ?thesis
    by (simp add: sample_profile_def increment_2_53_by_1 Rep_double_2_53)
qed


subsection \<open>Rejections\<close>

text \<open>
  Claim C4. A request whose \<^verbatim>\<open>secret\<close> parameter is absent or differs from the
  configured secret is answered 403 \<^verbatim>\<open>Invalid secret.\<close> and the store is returned as
  it was, whatever \<^verbatim>\<open>user_id\<close> and \<^verbatim>\<open>points\<close> are.
\<close>

theorem monetag_reward_invalid_secret:
  assumes "query req ''secret'' \<noteq> Some (REWARD_ENDPOINT_SECRET cfg)"
  shows "monetag_reward cfg ev req db =
         (Inr \<lparr>status = 403, body = ''Invalid secret.''\<rparr>, db)"
  using assms by (simp add: monetag_reward_def Let_def)

theorem monetag_reward_invalid_secret_witness:
  "monetag_reward sample_config (sample_env Commits) (postback ''u1'' ''guess'' ''50'')
     [sample_ref ''u1'' \<mapsto> sample_profile ''u1'' (IntegerValue 50)] =
   (Inr \<lparr>status = 403, body = ''Invalid secret.''\<rparr>,
    [sample_ref ''u1'' \<mapsto> sample_profile ''u1'' (IntegerValue 50)])"
  using monetag_reward_invalid_secret
    [of "postback ''u1'' ''guess'' ''50''" sample_config "sample_env Commits"
        "[sample_ref ''u1'' \<mapsto> sample_profile ''u1'' (IntegerValue 50)]"]
  by (simp add: sample_config_def postback_def)

text \<open>
  Claim C10. The secret is checked before the parameters: a request with a wrong
  secret whose parameters are malformed as well (no or empty \<^verbatim>\<open>user_id\<close>, or
  \<^verbatim>\<open>points\<close> that \<^verbatim>\<open>parseInt\<close> reads as NaN or as a number not above zero) is
  answered 403 \<^verbatim>\<open>Invalid secret.\<close>, not 400, and its answer is the one the same
  request gets with any other \<^verbatim>\<open>user_id\<close> and \<^verbatim>\<open>points\<close>.
\<close>

theorem monetag_reward_secret_checked_first:
  assumes "query req ''secret'' \<noteq> Some (REWARD_ENDPOINT_SECRET cfg)"
    and "js_not (query req ''user_id'')
         \<or> isNaN (parseInt (ToString (query req ''points'')))
         \<or> js_le (parseInt (ToString (query req ''points''))) (Fin 0)"
  shows "fst (monetag_reward cfg ev req db) = Inr \<lparr>status = 403, body = ''Invalid secret.''\<rparr>
       \<and> (\<forall>b. fst (monetag_reward cfg ev req db) \<noteq> Inr \<lparr>status = 400, body = b\<rparr>)
       \<and> (\<forall>u p. fst (monetag_reward cfg ev
                        (req\<lparr>query := (query req)(''user_id'' := u, ''points'' := p)\<rparr>) db)
                = fst (monetag_reward cfg ev req db))"
  using assms(1) by (simp add: monetag_reward_def Let_def)

theorem monetag_reward_secret_checked_first_witness:
  "js_not (query \<lparr>query = [''secret'' \<mapsto> ''guess'', ''points'' \<mapsto> ''-5'']\<rparr> ''user_id'')
   \<and> fst (monetag_reward sample_config (sample_env Commits)
            \<lparr>query = [''secret'' \<mapsto> ''guess'', ''points'' \<mapsto> ''-5'']\<rparr> Map.empty) =
       Inr \<lparr>status = 403, body = ''Invalid secret.''\<rparr>"
  using monetag_reward_secret_checked_first
    [of "\<lparr>query = [''secret'' \<mapsto> ''guess'', ''points'' \<mapsto> ''-5'']\<rparr>" sample_config
        "sample_env Commits" Map.empty]
  by (simp add: sample_config_def js_not_def)

text \<open>
  Claim C5. A postback that has passed both checks and whose transaction fails leaves
  the store as it was before the request, and it is answered 500
  \<^verbatim>\<open>Server Error during reward transaction.\<close> whenever the transaction ran, that
  is, whenever the document reference has been built.
\<close>

theorem monetag_reward_transaction_failure:
  assumes "query req ''secret'' = Some (REWARD_ENDPOINT_SECRET cfg)"
    and "\<not> js_not (query req ''user_id'')"
    and "\<not> isNaN (parseInt (ToString (query req ''points'')))"
    and "\<not> js_le (parseInt (ToString (query req ''points''))) (Fin 0)"
    and "transaction_outcome ev = Fails e"
  shows "snd (monetag_reward cfg ev req db) = db
       \<and> (\<forall>ref. userDocRef cfg (ToString (query req ''user_id'')) = Inr ref \<longrightarrow>
             monetag_reward cfg ev req db =
             (Inr \<lparr>status = 500, body = ''Server Error during reward transaction.''\<rparr>, db))"
proof -
  from assms(2) obtain uid where "query req ''user_id'' = Some uid" and "uid \<noteq> []"
    by (auto simp: js_not_def split: option.splits)
  with assms show ?thesis
    by (simp add: monetag_reward_validated [where uid = uid] ToString_def split: sum.splits)
qed

theorem monetag_reward_transaction_failure_witness:
  "monetag_reward sample_config (sample_env (Fails ''UNAVAILABLE''))
     (postback ''u1'' ''s3cret'' ''20'')
     [sample_ref ''u1'' \<mapsto> sample_profile ''u1'' (IntegerValue 50)] =
   (Inr \<lparr>status = 500, body = ''Server Error during reward transaction.''\<rparr>,
    [sample_ref ''u1'' \<mapsto> sample_profile ''u1'' (IntegerValue 50)])"
  using monetag_reward_transaction_failure
    [of "postback ''u1'' ''s3cret'' ''20''" sample_config
        "sample_env (Fails ''UNAVAILABLE'')" "''UNAVAILABLE''"
        "[sample_ref ''u1'' \<mapsto> sample_profile ''u1'' (IntegerValue 50)]"]
    sample_userDocRef
  by (simp add: sample_config_def sample_env_def postback_def js_not_def ToString_def
      parseInt_samples)

text \<open>
  Claim C3, as the code has it. For a request with the correct secret, the answer is
  400 \<^verbatim>\<open>Invalid parameters.\<close> exactly when \<^verbatim>\<open>user_id\<close> is absent or empty, or
  \<^verbatim>\<open>parseInt\<close> of the \<^verbatim>\<open>points\<close> parameter is NaN, or the number it reads is not
  above zero; the store is then returned as it was. What \<^verbatim>\<open>parseInt\<close> reads is the
  longest run of digits after leading white space, a sign and a \<^verbatim>\<open>0x\<close> prefix;
  it ignores the rest of the parameter.
\<close>

theorem monetag_reward_invalid_parameters:
  assumes "query req ''secret'' = Some (REWARD_ENDPOINT_SECRET cfg)"
  shows "(fst (monetag_reward cfg ev req db) =
            Inr \<lparr>status = 400, body = ''Invalid parameters.''\<rparr>
          \<longleftrightarrow> js_not (query req ''user_id'')
               \<or> isNaN (parseInt (ToString (query req ''points'')))
               \<or> js_le (parseInt (ToString (query req ''points''))) (Fin 0))
       \<and> (fst (monetag_reward cfg ev req db) =
            Inr \<lparr>status = 400, body = ''Invalid parameters.''\<rparr>
          \<longrightarrow> snd (monetag_reward cfg ev req db) = db)"
proof (cases "js_not (query req ''user_id'')
               \<or> isNaN (parseInt (ToString (query req ''points'')))
               \<or> js_le (parseInt (ToString (query req ''points''))) (Fin 0)")
  case True
  with assms show ?thesis
    by (simp add: monetag_reward_def Let_def)
next
  case False
  then obtain uid where uid: "query req ''user_id'' = Some uid" "uid \<noteq> []"
    by (auto simp: js_not_def split: option.splits)
  have "fst (monetag_reward cfg ev req db) \<noteq>
        Inr \<lparr>status = 400, body = ''Invalid parameters.''\<rparr>"
    using assms uid False
    by (simp add: monetag_reward_validated [where uid = uid] split: sum.splits)
  with False show ?thesis by simp
qed

theorem monetag_reward_invalid_parameters_witness:
  "fst (monetag_reward sample_config (sample_env Commits) (postback ''u1'' ''s3cret'' ''abc'')
          Map.empty) = Inr \<lparr>status = 400, body = ''Invalid parameters.''\<rparr>
   \<and> snd (monetag_reward sample_config (sample_env Commits) (postback ''u1'' ''s3cret'' ''abc'')
          Map.empty) = Map.empty"
  using monetag_reward_invalid_parameters
    [of "postback ''u1'' ''s3cret'' ''abc''" sample_config "sample_env Commits" Map.empty]
  by (simp add: sample_config_def postback_def parseInt_eval)

text \<open>
  Claim C3 as stated does not hold: \<^verbatim>\<open>points=12abc\<close> is not an integer, yet the
  request is accepted, a profile with 12 points is written and the answer is 200.
\<close>

theorem non_numeric_points_accepted:
  "\<not> integer_literal ''12abc''
   \<and> monetag_reward sample_config (sample_env Commits) (postback ''u1'' ''s3cret'' ''12abc'')
       Map.empty =
     (Inr \<lparr>status = 200, body = ''Reward processed.''\<rparr>,
      [[''artifacts'', ''kkoin'', ''users'', ''u1'', ''data'', ''profile''] \<mapsto>
         \<lparr>userId = ''u1'', points = IntegerValue 12, referrals = 0, claimedTasks = [],
          lastAdWatchDate = ''Tue Nov 03 2026'', adsWatchedToday = 1,
          processingWithdrawal = False\<rparr>])"
  by (simp add: integer_literal_def decimal_digit_def handler_eval sample_defs parseInt_eval)

subsection \<open>Balances only grow\<close>

text \<open>
  Claim C6. Whatever the request and the fate of its transaction, a profile that is in
  the store before the request and whose balance is a number other than NaN and
  \<open>-Infinity\<close> is still there afterwards, differs from what it was in \<open>points\<close> at
  most, has a balance not below the one before, and a balance that was not negative is
  not negative afterwards.
\<close>

theorem monetag_reward_points_never_decrease:
  assumes "db ref = Some p"
    and "fs_value (points p) \<noteq> NaN" and "fs_value (points p) \<noteq> NegInf"
  shows "\<exists>p'. snd (monetag_reward cfg ev req db) ref = Some p'
           \<and> p' = p\<lparr>points := points p'\<rparr>
           \<and> js_le (fs_value (points p)) (fs_value (points p'))
           \<and> (js_le (Fin 0) (fs_value (points p)) \<longrightarrow> js_le (Fin 0) (fs_value (points p')))"
proof (cases rule: monetag_reward_cases [of cfg ev req db])
  case unchanged
  with assms show ?thesis by (cases "fs_value (points p)") simp_all
next
  case (committed uid r ref')
  let ?p' = "if ref = ref' then p\<lparr>points := increment (points p) (encodeValue r)\<rparr> else p"
  have "snd (monetag_reward cfg ev req db) ref = Some ?p'"
    using reward_update_lookup [OF committed(4), of ref] assms(1) by auto
  moreover have "?p' = p\<lparr>points := points ?p'\<rparr>"
    by simp
  moreover have "js_le (fs_value (points p)) (fs_value (points ?p'))"
    using increment_not_below [OF committed(1,2,3) assms(2,3)] assms(2,3)
    by (cases "fs_value (points p)") simp_all
  moreover have "js_le (Fin 0) (fs_value (points p)) \<longrightarrow> js_le (Fin 0) (fs_value (points ?p'))"
    using increment_nonneg [OF committed(1,2,3), of "points p"] by simp
  ultimately show ?thesis by blast
qed

theorem monetag_reward_points_never_decrease_witness:
  "\<exists>p'. snd (monetag_reward sample_config (sample_env Commits)
                 (postback ''u1'' ''s3cret'' ''20'')
                 [sample_ref ''u1'' \<mapsto> sample_profile ''u1'' (IntegerValue 50)])
             (sample_ref ''u1'') = Some p'
        \<and> p' = (sample_profile ''u1'' (IntegerValue 50))\<lparr>points := points p'\<rparr>
        \<and> js_le (Fin 50) (fs_value (points p')) \<and> js_le (Fin 0) (fs_value (points p'))"
  using monetag_reward_points_never_decrease
    [of "[sample_ref ''u1'' \<mapsto> sample_profile ''u1'' (IntegerValue 50)]"
        "sample_ref ''u1''" "sample_profile ''u1'' (IntegerValue 50)"
        sample_config "sample_env Commits" "postback ''u1'' ''s3cret'' ''20''"]
  by (simp add: sample_profile_def)


lemma increment_integers_exact:
  assumes "0 < n" and "n \<le> 2 ^ 53 - 1" and "sint a + n \<le> 2 ^ 63 - 1"
  shows "increment (IntegerValue a) (encodeValue (Fin n)) = IntegerValue (word_of_int (sint a + n))"
    and "sint (word_of_int (sint a + n) :: 64 word) = sint a + n"
proof -
  have enc: "encodeValue (Fin n) = IntegerValue (word_of_int n)"
    using assms(1,2) by (simp add: encodeValue_def)
  have n: "sint (word_of_int n :: 64 word) = n"
    using assms(1,2) by (intro sint64_of_int) simp_all
  have low: "- (2 ^ 63) \<le> sint a + n"
    using sint64_bounds(1) [of a] assms(1) by simp
  with assms(3) have "max (- (2 ^ 63)) (min (2 ^ 63 - 1) (sint a + n)) = sint a + n"
    by simp
  then show "increment (IntegerValue a) (encodeValue (Fin n)) =
             IntegerValue (word_of_int (sint a + n))"
    unfolding enc increment.simps n by simp
  show "sint (word_of_int (sint a + n) :: 64 word) = sint a + n"
    using low assms(3) by (rule sint64_of_int)
qed

text \<open>
  Claim C8, as the code has it. Two successive postbacks with the same parameters for
  a user who has a profile, both in transactions that commit, are both answered 200
  and each applies the store's increment by the reward to the balance: no idempotency
  key tells them apart. The balance ends at exactly \<open>a + 2 * n\<close> when the balance \<open>a\<close>
  is stored as an integer, the reward \<open>n\<close> is at most \<open>2 ^ 53 - 1\<close> and \<open>a + 2 * n\<close> is
  at most \<open>2 ^ 63 - 1\<close>.
\<close>

theorem monetag_reward_repeated_postback:
  assumes "query req ''secret'' = Some (REWARD_ENDPOINT_SECRET cfg)"
    and "query req ''user_id'' = Some uid" and "uid \<noteq> []"
    and "userDocRef cfg uid = Inr ref" and "db ref = Some p"
    and "parseInt (ToString (query req ''points'')) = r"
    and "\<not> isNaN r" and "\<not> js_le r (Fin 0)"
    and "transaction_outcome ev1 = Commits" and "transaction_outcome ev2 = Commits"
    and "monetag_reward cfg ev1 req db = (res1, db1)"
    and "monetag_reward cfg ev2 req db1 = (res2, db2)"
  shows "res1 = Inr \<lparr>status = 200, body = ''Reward processed.''\<rparr>
       \<and> res2 = Inr \<lparr>status = 200, body = ''Reward processed.''\<rparr>
       \<and> db2 = db(ref \<mapsto>
                   p\<lparr>points := increment (increment (points p) (encodeValue r)) (encodeValue r)\<rparr>)
       \<and> (\<forall>a n. points p = IntegerValue a \<and> r = Fin n \<and> n \<le> 2 ^ 53 - 1
                 \<and> sint a + 2 * n \<le> 2 ^ 63 - 1 \<longrightarrow>
             map_option (\<lambda>p'. fs_value (points p')) (db2 ref) = Some (Fin (sint a + 2 * n)))"
proof -
  let ?p1 = "p\<lparr>points := increment (points p) (encodeValue r)\<rparr>"
  let ?p2 = "p\<lparr>points := increment (increment (points p) (encodeValue r)) (encodeValue r)\<rparr>"
  have first: "monetag_reward cfg ev1 req db =
               (Inr \<lparr>status = 200, body = ''Reward processed.''\<rparr>, db(ref \<mapsto> ?p1))"
    using assms(1-9) by (rule monetag_reward_credit)
  with assms(11) have res1: "res1 = Inr \<lparr>status = 200, body = ''Reward processed.''\<rparr>"
    and db1: "db1 = db(ref \<mapsto> ?p1)"
    by simp_all
  have "db1 ref = Some ?p1"
    by (simp add: db1)
  with assms(1-4) have "monetag_reward cfg ev2 req db1 =
      (Inr \<lparr>status = 200, body = ''Reward processed.''\<rparr>,
       db1(ref \<mapsto> ?p1\<lparr>points := increment (points ?p1) (encodeValue r)\<rparr>))"
    using assms(6-8,10) by (rule monetag_reward_credit)
  with assms(12) have res2: "res2 = Inr \<lparr>status = 200, body = ''Reward processed.''\<rparr>"
    and db2: "db2 = db(ref \<mapsto> ?p2)"
    by (simp_all add: db1)
  have "fs_value (points ?p2) = Fin (sint a + 2 * n)"
    if "points p = IntegerValue a" "r = Fin n" "n \<le> 2 ^ 53 - 1" "sint a + 2 * n \<le> 2 ^ 63 - 1"
    for a n
  proof -
    from assms(8) that(2) have pos: "0 < n" by simp
    with that(4) have one: "sint a + n \<le> 2 ^ 63 - 1" by simp
    define w1 :: "64 word" where "w1 = word_of_int (sint a + n)"
    note i1 = increment_integers_exact [OF pos that(3) one]
    have s1: "sint w1 = sint a + n"
      unfolding w1_def by (rule i1(2))
    have two: "sint w1 + n \<le> 2 ^ 63 - 1"
      using that(4) by (simp add: s1)
    note i2 = increment_integers_exact [OF pos that(3) two]
    have "points ?p2 =
          increment (increment (IntegerValue a) (encodeValue (Fin n))) (encodeValue (Fin n))"
      by (simp add: that(1,2))
    also have "\<dots> = increment (IntegerValue w1) (encodeValue (Fin n))"
      unfolding w1_def by (simp only: i1(1))
    also have "\<dots> = IntegerValue (word_of_int (sint w1 + n))"
      by (rule i2(1))
    finally have "fs_value (points ?p2) = Fin (sint (word_of_int (sint w1 + n) :: 64 word))"
      by (simp only: fs_value_Integer)
    also have "\<dots> = Fin (sint w1 + n)"
      by (simp only: i2(2))
    also have "\<dots> = Fin (sint a + 2 * n)"
      by (simp add: s1)
    finally show ?thesis .
  qed
  with res1 res2 db2 show ?thesis
    by simp
qed

theorem monetag_reward_repeated_postback_witness:
  "snd (monetag_reward sample_config (sample_env Commits) (postback ''u1'' ''s3cret'' ''20'')
     (snd (monetag_reward sample_config (sample_env Commits) (postback ''u1'' ''s3cret'' ''20'')
        [sample_ref ''u1'' \<mapsto> sample_profile ''u1'' (IntegerValue 50)]))) =
   [sample_ref ''u1'' \<mapsto> sample_profile ''u1'' (IntegerValue 90)]"
proof -
  let ?req = "postback ''u1'' ''s3cret'' ''20''"
  let ?p = "sample_profile ''u1'' (IntegerValue 50)"
  let ?db = "[sample_ref ''u1'' \<mapsto> ?p]"
  let ?first = "monetag_reward sample_config (sample_env Commits) ?req ?db"
  let ?second = "monetag_reward sample_config (sample_env Commits) ?req (snd ?first)"
  have r: "parseInt (ToString (query ?req ''points'')) = Fin 20"
    by (simp add: postback_def ToString_def parseInt_samples)
  have "snd ?second =
        ?db(sample_ref ''u1'' \<mapsto>
              ?p\<lparr>points := increment (increment (points ?p) (encodeValue (Fin 20)))
                                (encodeValue (Fin 20))\<rparr>)"
    using monetag_reward_repeated_postback
      [of ?req sample_config "''u1''" "sample_ref ''u1''" ?db ?p "Fin 20"
          "sample_env Commits" "sample_env Commits" "fst ?first" "snd ?first"
          "fst ?second" "snd ?second",
        OF _ _ _ sample_userDocRef _ r]
    by (simp add: sample_config_def sample_env_def postback_def)
  then show ?thesis
    by (simp add: sample_profile_def encodeValue_def increment.simps)
qed

text \<open>
  Claim C8 as stated does not hold for every balance: after two postbacks of 1 point
  on a balance of \<open>2 ^ 53\<close>, stored as a double, both answered 200, the balance is
  still \<open>2 ^ 53\<close> and not \<open>2 ^ 53 + 2\<close>.
\<close>

theorem repeated_credit_at_2_53_adds_nothing:
  "fst (monetag_reward sample_config (sample_env Commits) (postback ''u1'' ''s3cret'' ''1'')
     [sample_ref ''u1'' \<mapsto>
        sample_profile ''u1'' (DoubleValue (double_of (Fin 9007199254740992)))]) =
     Inr \<lparr>status = 200, body = ''Reward processed.''\<rparr>
   \<and> monetag_reward sample_config (sample_env Commits) (postback ''u1'' ''s3cret'' ''1'')
      (snd (monetag_reward sample_config (sample_env Commits) (postback ''u1'' ''s3cret'' ''1'')
         [sample_ref ''u1'' \<mapsto>
            sample_profile ''u1'' (DoubleValue (double_of (Fin 9007199254740992)))])) =
     (Inr \<lparr>status = 200, body = ''Reward processed.''\<rparr>,
      [sample_ref ''u1'' \<mapsto>
         sample_profile ''u1'' (DoubleValue (double_of (Fin 9007199254740992)))])
   \<and> fs_value (DoubleValue (double_of (Fin 9007199254740992))) = Fin 9007199254740992"
proof -
  let ?req = "postback ''u1'' ''s3cret'' ''1''"
  let ?p = "sample_profile ''u1'' (DoubleValue (double_of (Fin 9007199254740992)))"
  let ?db = "[sample_ref ''u1'' \<mapsto> ?p]"
  have r: "parseInt (ToString (query ?req ''points'')) = Fin 1"
    by (simp add: postback_def ToString_def parseInt_samples)
  have "monetag_reward sample_config (sample_env Commits) ?req ?db =
        (Inr \<lparr>status = 200, body = ''Reward processed.''\<rparr>,
         ?db(sample_ref ''u1'' \<mapsto> ?p\<lparr>points := increment (points ?p) (encodeValue (Fin 1))\<rparr>))"
    by (rule monetag_reward_credit [OF _ _ _ sample_userDocRef _ r])
      (simp_all add: sample_config_def sample_env_def postback_def)
  then have "monetag_reward sample_config (sample_env Commits) ?req ?db =
             (Inr \<lparr>status = 200, body = ''Reward processed.''\<rparr>, ?db)"
    by (simp add: sample_profile_def increment_2_53_by_1)
  then show ?thesis
    by (simp add: Rep_double_2_53)
qed

subsection \<open>No upper bound on the reward\<close>

text \<open>
  Claim C9, as the code has it. A postback with the correct secret, a \<^verbatim>\<open>user_id\<close>
  from which the client builds the document reference and the decimal numeral of any
  positive integer \<open>n\<close> as \<^verbatim>\<open>points\<close>, in a transaction that commits, is answered
  200 whatever the size of \<open>n\<close>. The amount handed to the store is the double nearest
  to \<open>n\<close>, a number above zero, and it is \<open>n\<close> itself for every \<open>n\<close> up to \<open>2 ^ 53\<close>;
  it is the balance of a new profile, and an existing balance is incremented by it as
  the store adds numbers.
\<close>

theorem monetag_reward_no_upper_bound:
  assumes "query req ''secret'' = Some (REWARD_ENDPOINT_SECRET cfg)"
    and "query req ''user_id'' = Some uid" and "uid \<noteq> []"
    and "userDocRef cfg uid = Inr ref"
    and "query req ''points'' = Some (decimal n)" and "0 < n"
    and "transaction_outcome ev = Commits"
  shows "monetag_reward cfg ev req db =
         (Inr \<lparr>status = 200, body = ''Reward processed.''\<rparr>,
          db(ref \<mapsto>
               (case db ref of
                  None \<Rightarrow>
                    \<lparr>userId = uid, points = encodeValue (to_double (int n)), referrals = 0,
                     claimedTasks = [], lastAdWatchDate = toDateString ev,
                     adsWatchedToday = 1, processingWithdrawal = False\<rparr>
                | Some p \<Rightarrow>
                    p\<lparr>points := increment (points p) (encodeValue (to_double (int n)))\<rparr>)))
       \<and> \<not> isNaN (to_double (int n)) \<and> \<not> js_le (to_double (int n)) (Fin 0)
       \<and> fs_value (encodeValue (to_double (int n))) = to_double (int n)
       \<and> (n \<le> 2 ^ 53 \<longrightarrow> to_double (int n) = Fin (int n))"
proof -
  have r: "parseInt (ToString (query req ''points'')) = to_double (int n)"
    using assms(5) by (simp add: ToString_def parseInt_decimal)
  note pos = to_double_positive [OF \<open>0 < n\<close>]
  have "monetag_reward cfg ev req db =
        (case runTransaction Commits db
                (reward_update ref uid (to_double (int n)) (toDateString ev)) of
           Inr db' \<Rightarrow> (Inr \<lparr>status = 200, body = ''Reward processed.''\<rparr>, db')
         | Inl error \<Rightarrow>
             (Inr \<lparr>status = 500, body = ''Server Error during reward transaction.''\<rparr>, db))"
    using monetag_reward_validated [OF assms(1-3) r, of ev db] pos assms(4,7) by simp
  then have "monetag_reward cfg ev req db =
         (Inr \<lparr>status = 200, body = ''Reward processed.''\<rparr>,
          db(ref \<mapsto>
               (case db ref of
                  None \<Rightarrow>
                    \<lparr>userId = uid, points = encodeValue (to_double (int n)), referrals = 0,
                     claimedTasks = [], lastAdWatchDate = toDateString ev,
                     adsWatchedToday = 1, processingWithdrawal = False\<rparr>
                | Some p \<Rightarrow>
                    p\<lparr>points := increment (points p) (encodeValue (to_double (int n)))\<rparr>)))"
    by (cases "db ref") (simp_all add: reward_update_absent reward_update_present)
  moreover have "fs_value (encodeValue (to_double (int n))) = to_double (int n)"
    by (rule fs_value_encodeValue) (rule is_double_to_double)
  ultimately show ?thesis
    using pos by (simp add: to_double_exact)
qed

theorem monetag_reward_no_upper_bound_witness:
  "monetag_reward sample_config (sample_env Commits) (postback ''u1'' ''s3cret'' (decimal 50))
     Map.empty =
   (Inr \<lparr>status = 200, body = ''Reward processed.''\<rparr>,
    [sample_ref ''u1'' \<mapsto>
       \<lparr>userId = ''u1'', points = IntegerValue 50, referrals = 0, claimedTasks = [],
        lastAdWatchDate = ''Tue Nov 03 2026'', adsWatchedToday = 1,
        processingWithdrawal = False\<rparr>])"
proof -
  have "to_double 50 = Fin 50"
    by (simp add: parseInt_eval)
  then show ?thesis
    using monetag_reward_no_upper_bound
      [of "postback ''u1'' ''s3cret'' (decimal 50)" sample_config "''u1''" "sample_ref ''u1''"
          50 "sample_env Commits" Map.empty] sample_userDocRef
    by (simp add: sample_config_def sample_env_def postback_def decimal_50 encodeValue_def)
qed

text \<open>
  Claim C9 as stated does not hold: the reward \<open>9007199254740993 = 2 ^ 53 + 1\<close> is
  accepted, but the profile is created with 9007199254740992 points.
\<close>

theorem large_points_not_credited_in_full:
  "decimal 9007199254740993 = ''9007199254740993''
   \<and> monetag_reward sample_config (sample_env Commits)
       (postback ''u1'' ''s3cret'' ''9007199254740993'') Map.empty =
     (Inr \<lparr>status = 200, body = ''Reward processed.''\<rparr>,
      [[''artifacts'', ''kkoin'', ''users'', ''u1'', ''data'', ''profile''] \<mapsto>
         \<lparr>userId = ''u1'', points = DoubleValue (double_of (Fin 9007199254740992)),
          referrals = 0, claimedTasks = [],
          lastAdWatchDate = ''Tue Nov 03 2026'', adsWatchedToday = 1,
          processingWithdrawal = False\<rparr>])
   \<and> fs_value (DoubleValue (double_of (Fin 9007199254740992))) = Fin 9007199254740992
   \<and> Fin 9007199254740992 \<noteq> Fin 9007199254740993"
  by (simp add: decimal.simps char_of_eq_iff handler_eval sample_defs parseInt_eval
      Rep_double_2_53)

text \<open>A balance of \<open>2 ^ 53\<close> comes about through the endpoint itself.\<close>

lemma balance_2_53_is_reachable:
  "monetag_reward sample_config (sample_env Commits)
     (postback ''u1'' ''s3cret'' ''9007199254740992'') Map.empty =
   (Inr \<lparr>status = 200, body = ''Reward processed.''\<rparr>,
    [sample_ref ''u1'' \<mapsto>
       \<lparr>userId = ''u1'', points = DoubleValue (double_of (Fin 9007199254740992)),
        referrals = 0, claimedTasks = [],
        lastAdWatchDate = ''Tue Nov 03 2026'', adsWatchedToday = 1,
        processingWithdrawal = False\<rparr>])"
  by (simp add: handler_eval sample_defs parseInt_eval)

end
